theory Spec2Isabelle
  imports Main "HOL-Library.Char_ord" "HOL-Library.List_Lexorder" "HOL-Library.Sublist"
begin

section \<open>Text and characters\<close>

text \<open>
  The audit script reads every file as decoded text and hands it to Python's \<open>re\<close>
  module. Text is modelled as a \<open>string\<close>: a list of characters with code points below
  256. All patterns of the script are ASCII, and on such text Python's case folding under
  \<open>re.I\<close> pairs exactly the ASCII letters \<open>A-Z\<close> with \<open>a-z\<close>.
\<close>

definition newline :: char where
  "newline = CHR 0x0A"

definition is_upper :: "char \<Rightarrow> bool" where
  "is_upper c = (65 \<le> (of_char c :: nat) \<and> (of_char c :: nat) \<le> 90)"

definition is_lower :: "char \<Rightarrow> bool" where
  "is_lower c = (97 \<le> (of_char c :: nat) \<and> (of_char c :: nat) \<le> 122)"

definition swapcase :: "char \<Rightarrow> char" where
  "swapcase c = (if is_upper c then char_of ((of_char c :: nat) + 32)
                 else if is_lower c then char_of ((of_char c :: nat) - 32)
                 else c)"

text \<open>\<open>str.isspace\<close> on code points below 256; it is also what \<open>\s\<close> matches and what
  \<open>str.strip()\<close> removes.\<close>

definition is_space :: "char \<Rightarrow> bool" where
  "is_space c = (let n = (of_char c :: nat) in
     (9 \<le> n \<and> n \<le> 13) \<or> (28 \<le> n \<and> n \<le> 32) \<or> n = 133 \<or> n = 160)"

definition is_digit :: "char \<Rightarrow> bool" where
  "is_digit c = (48 \<le> (of_char c :: nat) \<and> (of_char c :: nat) \<le> 57)"

section \<open>Regular expressions as Python's \<open>re\<close> matches them\<close>

text \<open>
  The abstract syntax covers what the script's patterns use: literals, \<open>.\<close>, character
  sets and their negation, the classes \<open>\s\<close>, \<open>\S\<close> and \<open>\d\<close>, the anchor \<open>^\<close>,
  greedy and lazy repetition of a single-character item (every quantifier of the script
  is applied to one), concatenation, alternation and capturing groups. No pattern of the
  script sets a flag inside the pattern (\<open>(?i)\<close>, \<open>(?-i:...)\<close>), so the syntax has no
  such group: a value of type \<open>rx\<close> is a pattern in the script's own dialect, not an
  arbitrary Python pattern.
\<close>

datatype citem = CChar char | CRange char char | CSpace | CNonSpace | CDigit

datatype atom = Lit char | Dot | CSet "citem list" | NSet "citem list"

datatype rx =
    Eps
  | Atom atom
  | Bol
  | Rep bool nat "nat option" atom
  | Seq rx rx
  | Alt rx rx
  | Grp rx

record flags =
  icase :: bool
  multiline :: bool
  dotall :: bool

fun citem_ok :: "citem \<Rightarrow> char \<Rightarrow> bool" where
  "citem_ok (CChar x) c = (c = x)"
| "citem_ok (CRange lo hi) c =
     ((of_char lo :: nat) \<le> of_char c \<and> (of_char c :: nat) \<le> of_char hi)"
| "citem_ok CSpace c = is_space c"
| "citem_ok CNonSpace c = (\<not> is_space c)"
| "citem_ok CDigit c = is_digit c"

definition in_cset :: "citem list \<Rightarrow> char \<Rightarrow> bool" where
  "in_cset its c = list_ex (\<lambda>i. citem_ok i c) its"

text \<open>One character against one item. Under \<open>re.I\<close> a character matches when it or
  its other-case form does; a negated set then rejects both forms.\<close>

fun atom_ok :: "flags \<Rightarrow> atom \<Rightarrow> char \<Rightarrow> bool" where
  "atom_ok fl (Lit x) c = (c = x \<or> (icase fl \<and> swapcase c = x))"
| "atom_ok fl Dot c = (dotall fl \<or> c \<noteq> newline)"
| "atom_ok fl (CSet its) c = (in_cset its c \<or> (icase fl \<and> in_cset its (swapcase c)))"
| "atom_ok fl (NSet its) c = (\<not> (in_cset its c \<or> (icase fl \<and> in_cset its (swapcase c))))"

text \<open>
  A matcher state is the character before the current position (\<open>None\<close> at the start of
  the text), the text still to be read, and the groups captured so far. The matcher
  returns every way to match, in the order in which Python's backtracking engine tries
  them, so the head of the result is the match Python reports.
\<close>

type_synonym mstate = "char option \<times> string \<times> string list"

text \<open>The states after 0, 1, 2, ... repetitions of an item, at most \<open>hi\<close> of them.\<close>

fun reps :: "flags \<Rightarrow> atom \<Rightarrow> nat option \<Rightarrow> char option \<Rightarrow> string \<Rightarrow> string list \<Rightarrow> mstate list" where
  "reps fl a hi p [] cs = [(p, [], cs)]"
| "reps fl a hi p (c # s) cs =
     (p, c # s, cs) #
     (if hi \<noteq> Some 0 \<and> atom_ok fl a c
      then reps fl a (map_option (\<lambda>n. n - 1) hi) (Some c) s cs
      else [])"

fun rx_match :: "flags \<Rightarrow> rx \<Rightarrow> mstate \<Rightarrow> mstate list" where
  "rx_match fl Eps st = [st]"
| "rx_match fl (Atom a) (p, s, cs) =
     (case s of [] \<Rightarrow> [] | c # t \<Rightarrow> if atom_ok fl a c then [(Some c, t, cs)] else [])"
| "rx_match fl Bol (p, s, cs) =
     (if p = None \<or> (multiline fl \<and> p = Some newline) then [(p, s, cs)] else [])"
| "rx_match fl (Rep greedy lo hi a) (p, s, cs) =
     (let ks = drop lo (reps fl a hi p s cs) in if greedy then rev ks else ks)"
| "rx_match fl (Seq a b) st = concat (map (rx_match fl b) (rx_match fl a st))"
| "rx_match fl (Alt a b) st = rx_match fl a st @ rx_match fl b st"
| "rx_match fl (Grp r) (p, s, cs) =
     map (\<lambda>(p', s', cs'). (p', s', cs' @ [take (length s - length s') s]))
         (rx_match fl r (p, s, cs))"

text \<open>\<open>re.search(rx, t, flags)\<close> as a truth value: some position of \<open>t\<close> admits a match.\<close>

fun search_at :: "flags \<Rightarrow> rx \<Rightarrow> char option \<Rightarrow> string \<Rightarrow> bool" where
  "search_at fl r p [] = (rx_match fl r (p, [], []) \<noteq> [])"
| "search_at fl r p (c # s) =
     (rx_match fl r (p, c # s, []) \<noteq> [] \<or> search_at fl r (Some c) s)"

definition re_search :: "flags \<Rightarrow> rx \<Rightarrow> string \<Rightarrow> bool" where
  "re_search fl r t = search_at fl r None t"

text \<open>
  \<open>re.finditer\<close>: the non-overlapping matches from left to right, each given by its
  captured groups. After an empty match Python searches again from the same position
  but refuses an empty match there (\<open>adv\<close>).
\<close>

function finditer_from :: "flags \<Rightarrow> rx \<Rightarrow> bool \<Rightarrow> char option \<Rightarrow> string \<Rightarrow> string list list" where
  "finditer_from fl r adv p s =
     (case filter (\<lambda>(p', s', cs). \<not> adv \<or> length s' < length s) (rx_match fl r (p, s, [])) of
        [] \<Rightarrow> (case s of [] \<Rightarrow> [] | c # t \<Rightarrow> finditer_from fl r False (Some c) t)
      | (p', s', cs) # _ \<Rightarrow>
          cs # (if length s' < length s then finditer_from fl r False p' s'
                else if adv then [] \<comment> \<open>not reached: with \<open>adv\<close> the filter keeps no empty match\<close>
                else finditer_from fl r True p s))"
  by pat_completeness auto
termination
  by (relation "measure (\<lambda>(fl, r, adv, p, s). 2 * length s + (if adv then 0 else 1))") auto

definition finditer :: "flags \<Rightarrow> rx \<Rightarrow> string \<Rightarrow> string list list" where
  "finditer fl r t = finditer_from fl r False None t"

text \<open>\<open>m.group(1)\<close> of every match of \<open>finditer\<close>; every pattern the script iterates
  over has exactly one group, outside any alternative.\<close>

definition group1 :: "string list \<Rightarrow> string" where
  "group1 cs = (case cs of [] \<Rightarrow> [] | g # _ \<Rightarrow> g)"

definition finditer_group1 :: "flags \<Rightarrow> rx \<Rightarrow> string \<Rightarrow> string list" where
  "finditer_group1 fl r t = map group1 (finditer fl r t)"

subsection \<open>Building patterns\<close>

primrec str :: "string \<Rightarrow> rx" where
  "str [] = Eps"
| "str (c # s) = Seq (Atom (Lit c)) (str s)"

primrec cat :: "rx list \<Rightarrow> rx" where
  "cat [] = Eps"
| "cat (r # rs) = Seq r (cat rs)"

definition space :: atom where "space = CSet [CSpace]"
definition digit09 :: atom where "digit09 = CSet [CRange (CHR ''0'') (CHR ''9'')]"
definition quote :: atom where "quote = CSet [CChar (CHR 0x27), CChar (CHR 0x22)]"

definition rstar :: "atom \<Rightarrow> rx" where "rstar a = Rep True 0 None a"
definition rplus :: "atom \<Rightarrow> rx" where "rplus a = Rep True 1 None a"
definition rlazy_star :: "atom \<Rightarrow> rx" where "rlazy_star a = Rep False 0 None a"
definition rlazy_plus :: "atom \<Rightarrow> rx" where "rlazy_plus a = Rep False 1 None a"
definition ropt :: "atom \<Rightarrow> rx" where "ropt a = Rep True 0 (Some 1) a"

section \<open>Python string helpers\<close>

text \<open>\<open>s.split(d)\<close> for a one-character separator: always at least one piece.\<close>

fun split_on :: "char \<Rightarrow> string \<Rightarrow> string list" where
  "split_on d [] = [[]]"
| "split_on d (c # s) =
     (if c = d then [] # split_on d s
      else (case split_on d s of [] \<Rightarrow> [[c]] | x # xs \<Rightarrow> (c # x) # xs))"

text \<open>\<open>s.strip()\<close> and \<open>s.strip(chars)\<close>, the stripped characters given by a predicate.\<close>

definition strip_by :: "(char \<Rightarrow> bool) \<Rightarrow> string \<Rightarrow> string" where
  "strip_by P s = rev (dropWhile P (rev (dropWhile P s)))"

text \<open>\<open>s.split(d, 1)\<close> for an \<open>s\<close> that contains \<open>d\<close>: the text before the first \<open>d\<close>
  and the text after it.\<close>

definition split_first :: "char \<Rightarrow> string \<Rightarrow> string \<times> string" where
  "split_first d s = (takeWhile (\<lambda>c. c \<noteq> d) s, drop 1 (dropWhile (\<lambda>c. c \<noteq> d) s))"

text \<open>\<open>sorted(v)\<close> for a set \<open>v\<close> of strings, the set given by the list of its additions.\<close>

definition sorted_set :: "string list \<Rightarrow> string list" where
  "sorted_set xs = sort (remdups xs)"

section \<open>The scanned tree\<close>

text \<open>
  An entry is one path that \<open>root.rglob\<close> can yield: the directories from the root down
  to it, its final name, whether it is a regular file, and the text that
  \<open>p.read_text(encoding="utf-8", errors="ignore")\<close> returns, \<open>None\<close> when reading raises
  (a directory, a file that cannot be opened). The tree is the list of its entries in
  the order in which \<open>rglob("*")\<close> yields them: directory by directory in pre-order, the
  entries of one directory in the order the file system lists them. Names are compared
  as on a POSIX system. Symbolic links are not modelled.
\<close>

record entry =
  e_dirs :: "string list"
  e_name :: string
  e_is_file :: bool
  e_text :: "string option"

text \<open>\<open>str(p)\<close> for an entry under the resolved root.\<close>

definition path_str :: "string \<Rightarrow> entry \<Rightarrow> string" where
  "path_str root e =
     (if root = ''/'' then [] else root) @ concat (map (\<lambda>d. CHR ''/'' # d) (e_dirs e @ [e_name e]))"

text \<open>With \<open>errors="ignore"\<close> decoding never raises, so the second attempt of
  \<open>read_text_safe\<close> fails whenever the first does, and the result is the empty text.\<close>

definition read_text_safe :: "entry \<Rightarrow> string" where
  "read_text_safe e =
     (if e_is_file e then (case e_text e of Some t \<Rightarrow> t | None \<Rightarrow> []) else [])"

text \<open>A name against a glob pattern; \<open>*\<close> is the only wildcard the script uses, and in
  \<open>pathlib\<close> it also matches a leading dot.\<close>

fun glob_match :: "string \<Rightarrow> string \<Rightarrow> bool" where
  "glob_match [] s = (s = [])"
| "glob_match (c # pat) [] = (c = CHR ''*'' \<and> glob_match pat [])"
| "glob_match (c # pat) (d # t) =
     (if c = CHR ''*'' then (glob_match pat (d # t) \<or> glob_match (c # pat) t)
      else (c = d \<and> glob_match pat t))"

text \<open>
  \<open>root.rglob(pat)\<close> for a pattern of one component, as every pattern but two of the
  script is: the entries whose name matches, in walk order.
\<close>

definition rglob :: "string \<Rightarrow> entry list \<Rightarrow> entry list" where
  "rglob pat fs = filter (\<lambda>e. glob_match pat (e_name e)) fs"

text \<open>
  \<open>root.rglob(pat)\<close> for a pattern of several components, such as
  \<open>startup/validation.ts\<close>. The components are matched against the last components of
  the path. \<open>pathlib\<close> (Python 3.11) visits the directories in pre-order and completes
  the pattern below each, so the matches come in the pre-order of the directory the
  pattern starts from, not of their parent. The walk reaches a directory where the
  first entry below it stands, and an enclosing directory before an enclosed one.
\<close>

definition path_glob :: "string list \<Rightarrow> string list \<Rightarrow> bool" where
  "path_glob comps path =
     (length comps \<le> length path \<and>
      list_all2 glob_match comps (drop (length path - length comps) path))"

definition first_under :: "string list \<Rightarrow> entry list \<Rightarrow> nat" where
  "first_under d fs = length (takeWhile (\<lambda>e. \<not> prefix d (e_dirs e)) fs)"

definition rglob_nested :: "string \<Rightarrow> entry list \<Rightarrow> entry list" where
  "rglob_nested pat fs =
     (let comps = split_on (CHR ''/'') pat;
          start = (\<lambda>e. take (Suc (length (e_dirs e)) - length comps) (e_dirs e))
      in sort_key (\<lambda>e. first_under (start e) fs)
           (sort_key (\<lambda>e. length (start e))
              (filter (\<lambda>e. path_glob comps (e_dirs e @ [e_name e])) fs)))"

definition glob_files :: "entry list \<Rightarrow> string list \<Rightarrow> entry list" where
  "glob_files fs patterns = concat (map (\<lambda>pat. rglob pat fs) patterns)"

definition find_any :: "entry list \<Rightarrow> string list \<Rightarrow> entry list" where
  "find_any fs names = filter (\<lambda>p. e_is_file p \<and> e_name p \<in> set names) (rglob ''*'' fs)"

section \<open>Searching pattern groups\<close>

type_synonym patterns = "(string \<times> rx list) list"
type_synonym hitmap = "(string \<times> string list) list"

text \<open>
  A Python \<open>dict\<close> is an association list in insertion order whose keys are distinct.
  \<open>hits[key].append(v)\<close> extends the list stored under \<open>key\<close>.
\<close>

definition dict_append :: "string \<Rightarrow> string \<Rightarrow> hitmap \<Rightarrow> hitmap" where
  "dict_append key v hits = map (\<lambda>(k, h). (k, if k = key then h @ [v] else h)) hits"

text \<open>\<open>hits[k]\<close>. Every key the checks read is a key of their own pattern table, so the
  \<open>KeyError\<close> branch is never taken; it reads as the empty list here.\<close>

definition hits_at :: "hitmap \<Rightarrow> string \<Rightarrow> string list" where
  "hits_at hits k = (case map_of hits k of Some h \<Rightarrow> h | None \<Rightarrow> [])"

text \<open>\<open>search_patterns\<close> passes \<open>flags=re.I|re.M\<close> to every \<open>re.search\<close>.\<close>

definition search_flags :: flags where
  "search_flags = \<lparr>icase = True, multiline = True, dotall = False\<rparr>"

definition search_globs :: "string list" where
  "search_globs = [''*.ts'', ''*.js'', ''*.sql'', ''*.yml'', ''*.yaml'']"

text \<open>The innermost loop: the first pattern of the group that matches records the
  file and ends the loop (\<open>break\<close>).\<close>

fun scan_regs :: "string \<Rightarrow> string \<Rightarrow> string \<Rightarrow> rx list \<Rightarrow> hitmap \<Rightarrow> hitmap" where
  "scan_regs path t key [] hits = hits"
| "scan_regs path t key (rx # regs) hits =
     (if re_search search_flags rx t then dict_append key path hits
      else scan_regs path t key regs hits)"

definition scan_file :: "string \<Rightarrow> patterns \<Rightarrow> entry \<Rightarrow> hitmap \<Rightarrow> hitmap" where
  "scan_file root pats p hits =
     fold (\<lambda>(key, regs) h. scan_regs (path_str root p) (read_text_safe p) key regs h) pats hits"

definition search_patterns :: "string \<Rightarrow> entry list \<Rightarrow> patterns \<Rightarrow> hitmap" where
  "search_patterns root fs pats =
     fold (scan_file root pats) (glob_files fs search_globs) (map (\<lambda>(k, regs). (k, [])) pats)"

section \<open>The checks\<close>

record check_result =
  ok :: bool
  hits :: hitmap

subsection \<open>Pattern tables\<close>

definition pkce_pats :: patterns where
  "pkce_pats =
    [(''has_pkce_terms'', [str ''code_verifier'', str ''pkce'']),
     (''stores_in_redis'',
        [cat [str ''pkce:'', rstar Dot, str ''state''],
         Alt (str ''setex'') (str ''setEx('')]),
     (''callback_reads_verifier'', [str ''/callback'', str ''code_verifier'', str ''redis.get'']),
     (''deletes_after_use'',
        [cat [str ''redis.'', Grp (Alt (str ''del'') (str ''unlink'')), str ''('']])]"

definition idempotency_pats :: patterns where
  "idempotency_pats =
    [(''hash_merchant_and_body'',
        [cat [str ''createHash('', Atom quote, str ''sha256'', Atom quote, str '')'',
              rlazy_star Dot, str ''update('', rplus Dot, str ''merchant'', rstar Dot, str ''raw''],
         cat [str ''sha256('', rplus Dot, str ''merchant_id'', rplus Dot, str ''rawBody'']]),
     (''db_unique'',
        [cat [str ''UNIQUE'', rstar space, str ''('', rstar space, str ''merchant_id'', rstar space,
              str '','', rstar space, str ''event_id'', rstar space, str '')''],
         cat [str ''ADD CONSTRAINT '', rstar Dot, str '' UNIQUE '', rstar Dot, str ''merchant_id'',
              rstar Dot, str ''event_id'']])]"

definition redis_required_pats :: patterns where
  "redis_required_pats =
    [(''env_required'',
        [str ''REDIS_URL'',
         cat [str ''throw new Error('', rplus Dot, str ''REDIS_URL'', rplus Dot, str ''required'']]),
     (''fail_on_end'',
        [cat [str ''redis.on('', Atom quote, str ''end'', Atom quote, rplus Dot, str ''process.exit'']]),
     (''rediss_tls'', [str ''rediss://''])]"

definition rate_limiter_pats :: patterns where
  "rate_limiter_pats =
    [(''redis_window'',
        [cat [str ''rl:'', rstar Dot, str ''merchant'', rstar Dot, str ''endpoint'', rstar Dot,
              rplus (CSet [CDigit])],
         str ''redis.incr('',
         str ''redis.expire(''])]"

definition retry_backoff_pats :: patterns where
  "retry_backoff_pats =
    [(''handles_429_5xx'', [str ''429'', str ''502'', str ''503'', str ''504'']),
     (''exponential_backoff'',
        [cat [str ''2'', rstar space, str ''**'', rstar space, str ''i''],
         str ''exponential'', str ''backoff'']),
     (''jitter'', [str ''Math.random()''])]"

definition dlq_pats :: patterns where
  "dlq_pats =
    [(''queue_failed_handler'', [cat [str ''.on('', Atom quote, str ''failed'', Atom quote]]),
     (''push_dlq'',
        [str ''dlq'',
         cat [str ''redis.'', Grp (Alt (str ''lpush'') (str ''rpush'')), str ''('']])]"

definition token_renewal_pats :: patterns where
  "token_renewal_pats =
    [(''renew_long_lived'',
        [str ''renew'',
         cat [str ''long'', rstar Dot, str ''lived''],
         cat [str ''refresh'', rstar Dot, str ''token'']])]"

definition rls_pats :: patterns where
  "rls_pats =
    [(''policies'',
        [str ''CREATE POLICY'',
         cat [str ''ALTER TABLE '', rstar Dot, str '' ENABLE ROW LEVEL SECURITY'']]),
     (''context_fn'', [str ''set_merchant_context('', str ''current_merchant_id(''])]"

definition mapping_table_pats :: patterns where
  "mapping_table_pats =
    [(''composite_pk'',
        [cat [str ''PRIMARY KEY'', rstar space, str ''('', rstar space, str ''merchant_id'',
              rstar space, str '','', rstar space, str ''instagram_page_id'', rstar space, str '')'']]),
     (''encrypted_token'', [str ''page_access_token_enc'', str ''encryp''])]"

definition hmac_rawbody_pats :: patterns where
  "hmac_rawbody_pats =
    [(''header_check'', [str ''X-Hub-Signature-256'', str ''x-hub-signature-256'']),
     (''raw_body_used'', [str ''rawBody'', str ''getRawBody'', str ''req.raw'']),
     (''timing_safe_equal'', [str ''timingSafeEqual'', str ''crypto.timingSafeEqual''])]"

definition openai_hardening_pats :: patterns where
  "openai_hardening_pats =
    [(''timeout'', [cat [str ''timeout'', rstar space, str '':'', rstar space, rplus (CSet [CDigit])]]),
     (''json_parse_guard'',
        [cat [str ''JSON.parse('', rstar (NSet [CChar (CHR '')'')]), str '')''],
         str ''try'', str ''catch'']),
     (''input_cap'',
        [Alt (str ''2KB'') (Alt (str ''2048'') (cat [str ''<='', rstar space, str ''2000'']))])]"

definition media_validation_pats :: patterns where
  "media_validation_pats =
    [(''size_type_checks'',
        [str ''mime'',
         cat [str ''content'', Atom (CSet [CChar (CHR ''-''), CChar (CHR ''_''), CChar (CHR '' '')]),
              str ''type''],
         cat [str ''file'', rstar Dot, str ''size''],
         str ''MB'',
         Alt (str ''8MB'') (Alt (str ''10MB'') (str ''1048576''))])]"

definition docker_multistage_pats :: patterns where
  "docker_multistage_pats =
    [(''has_build_stage'',
        [cat [str ''FROM'', rplus space, str ''node:'', rstar Dot, str ''AS'', rplus space,
              str ''build'']]),
     (''runtime_stage'',
        [cat [str ''FROM'', rplus space, str ''node:'', rstar Dot, Atom (Lit newline)],
         cat [str ''EXPOSE'', rplus space, rplus digit09]])]"

subsection \<open>The check functions\<close>

definition check_pkce :: "string \<Rightarrow> entry list \<Rightarrow> check_result" where
  "check_pkce root fs =
     (let hs = search_patterns root fs pkce_pats
      in \<lparr>ok = list_all (\<lambda>(k, h). h \<noteq> []) hs, hits = hs\<rparr>)"

definition check_idempotency :: "string \<Rightarrow> entry list \<Rightarrow> check_result" where
  "check_idempotency root fs =
     (let hs = search_patterns root fs idempotency_pats
      in \<lparr>ok = (hits_at hs ''hash_merchant_and_body'' \<noteq> [] \<or> hits_at hs ''db_unique'' \<noteq> []),
          hits = hs\<rparr>)"

definition check_redis_required :: "string \<Rightarrow> entry list \<Rightarrow> check_result" where
  "check_redis_required root fs =
     (let hs = search_patterns root fs redis_required_pats
      in \<lparr>ok = (hits_at hs ''env_required'' \<noteq> []), hits = hs\<rparr>)"

definition check_rate_limiter :: "string \<Rightarrow> entry list \<Rightarrow> check_result" where
  "check_rate_limiter root fs =
     (let hs = search_patterns root fs rate_limiter_pats
      in \<lparr>ok = (hits_at hs ''redis_window'' \<noteq> []), hits = hs\<rparr>)"

definition check_retry_backoff :: "string \<Rightarrow> entry list \<Rightarrow> check_result" where
  "check_retry_backoff root fs =
     (let hs = search_patterns root fs retry_backoff_pats
      in \<lparr>ok = (hits_at hs ''handles_429_5xx'' \<noteq> [] \<and>
                (hits_at hs ''exponential_backoff'' \<noteq> [] \<or> hits_at hs ''jitter'' \<noteq> [])),
          hits = hs\<rparr>)"

definition check_dlq :: "string \<Rightarrow> entry list \<Rightarrow> check_result" where
  "check_dlq root fs =
     (let hs = search_patterns root fs dlq_pats
      in \<lparr>ok = (hits_at hs ''queue_failed_handler'' \<noteq> [] \<and> hits_at hs ''push_dlq'' \<noteq> []),
          hits = hs\<rparr>)"

definition check_token_renewal :: "string \<Rightarrow> entry list \<Rightarrow> check_result" where
  "check_token_renewal root fs =
     (let hs = search_patterns root fs token_renewal_pats
      in \<lparr>ok = (hits_at hs ''renew_long_lived'' \<noteq> []), hits = hs\<rparr>)"

definition check_rls :: "string \<Rightarrow> entry list \<Rightarrow> check_result" where
  "check_rls root fs =
     (let hs = search_patterns root fs rls_pats
      in \<lparr>ok = (hits_at hs ''policies'' \<noteq> [] \<and> hits_at hs ''context_fn'' \<noteq> []), hits = hs\<rparr>)"

definition check_mapping_table :: "string \<Rightarrow> entry list \<Rightarrow> check_result" where
  "check_mapping_table root fs =
     (let hs = search_patterns root fs mapping_table_pats
      in \<lparr>ok = (hits_at hs ''composite_pk'' \<noteq> [] \<and> hits_at hs ''encrypted_token'' \<noteq> []),
          hits = hs\<rparr>)"

definition check_hmac_rawbody :: "string \<Rightarrow> entry list \<Rightarrow> check_result" where
  "check_hmac_rawbody root fs =
     (let hs = search_patterns root fs hmac_rawbody_pats
      in \<lparr>ok = (hits_at hs ''header_check'' \<noteq> [] \<and> hits_at hs ''raw_body_used'' \<noteq> [] \<and>
                hits_at hs ''timing_safe_equal'' \<noteq> []),
          hits = hs\<rparr>)"

definition check_openai_hardening :: "string \<Rightarrow> entry list \<Rightarrow> check_result" where
  "check_openai_hardening root fs =
     (let hs = search_patterns root fs openai_hardening_pats
      in \<lparr>ok = (hits_at hs ''timeout'' \<noteq> [] \<and> hits_at hs ''json_parse_guard'' \<noteq> []),
          hits = hs\<rparr>)"

definition check_media_validation :: "string \<Rightarrow> entry list \<Rightarrow> check_result" where
  "check_media_validation root fs =
     (let hs = search_patterns root fs media_validation_pats
      in \<lparr>ok = (hits_at hs ''size_type_checks'' \<noteq> []), hits = hs\<rparr>)"

definition check_docker_multistage :: "string \<Rightarrow> entry list \<Rightarrow> check_result" where
  "check_docker_multistage root fs =
     (let hs = search_patterns root fs docker_multistage_pats
      in \<lparr>ok = (hits_at hs ''has_build_stage'' \<noteq> [] \<and> hits_at hs ''runtime_stage'' \<noteq> []),
          hits = hs\<rparr>)"

section \<open>The diagnostic scans\<close>

definition no_flags :: flags where
  "no_flags = \<lparr>icase = False, multiline = False, dotall = False\<rparr>"

subsection \<open>\<open>summarize_ports\<close>\<close>

record ports_summary =
  ps_env :: "string list"
  ps_dockerfile :: "string list"
  ps_compose :: "string list"
  ps_health_targets :: "string list"
  ps_code :: "string list"

definition rx_env_port :: rx where
  "rx_env_port =
     cat [Bol, rstar space, str ''PORT'', rstar space, str ''='', rstar space, Grp (rplus digit09)]"

definition rx_expose :: rx where
  "rx_expose = cat [str ''EXPOSE'', rplus space, Grp (rplus digit09)]"

definition rx_compose_ports :: rx where
  "rx_compose_ports =
     cat [str ''ports:'', rstar space, str ''['', Grp (rplus (NSet [CChar (CHR '']'')])), str '']'']"

definition rx_healthcheck :: rx where
  "rx_healthcheck =
     cat [str ''healthcheck:'', rlazy_star (CSet [CSpace, CNonSpace]), str ''curl'',
          rlazy_star (NSet [CChar newline]), str ''http'', ropt (CSet [CChar (CHR ''s'')]),
          str ''://'', rlazy_plus (NSet [CChar newline]), str '':'', Grp (rplus (CSet [CDigit])),
          str ''/health'']"

definition rx_env_default :: rx where
  "rx_env_default =
     cat [str ''process.env.PORT'', rstar space, str ''||'', rstar space, Grp (rplus digit09)]"

definition rx_listen :: rx where
  "rx_listen = cat [str ''.listen('', rstar space, Grp (Rep True 2 (Some 5) digit09)]"

text \<open>The pairs \<open>host:container\<close> of one \<open>ports: [...]\<close> list.\<close>

definition compose_pairs :: "string \<Rightarrow> (string \<times> string) list" where
  "compose_pairs g =
     concat (map (\<lambda>pair.
        let s = strip_by (\<lambda>c. c = CHR 0x27) (strip_by (\<lambda>c. c = CHR 0x22) (strip_by is_space pair))
        in if CHR '':'' \<in> set s then [split_first (CHR '':'') s] else [])
      (split_on (CHR '','') g))"

definition compose_files :: "entry list \<Rightarrow> entry list" where
  "compose_files fs = rglob ''docker-compose*.yml'' fs @ rglob ''docker-compose*.yaml'' fs"

definition summarize_ports :: "entry list \<Rightarrow> ports_summary" where
  "summarize_ports fs =
     \<lparr>ps_env = sorted_set (concat (map
          (\<lambda>p. finditer_group1 (no_flags\<lparr>multiline := True\<rparr>) rx_env_port (read_text_safe p))
          (find_any fs [''.env'', ''.env.production'', ''.env.example'', ''.env.sample'']))),
      ps_dockerfile = sorted_set (concat (map
          (\<lambda>p. finditer_group1 no_flags rx_expose (read_text_safe p))
          (rglob ''Dockerfile'' fs))),
      ps_compose = sorted_set (concat (map
          (\<lambda>p. concat (map (\<lambda>g. map snd (compose_pairs g))
                 (finditer_group1 (no_flags\<lparr>dotall := True\<rparr>) rx_compose_ports (read_text_safe p))))
          (compose_files fs))),
      ps_health_targets = sorted_set (concat (map
          (\<lambda>p. finditer_group1 (no_flags\<lparr>icase := True\<rparr>) rx_healthcheck (read_text_safe p))
          (compose_files fs))),
      ps_code = sorted_set (concat (map
          (\<lambda>p. finditer_group1 no_flags rx_env_default (read_text_safe p) @
               finditer_group1 no_flags rx_listen (read_text_safe p))
          (glob_files fs [''*.ts'', ''*.js''])))\<rparr>"

subsection \<open>\<open>scan_env_validation\<close>\<close>

definition REQ_ENVS :: "string list" where
  "REQ_ENVS =
     [''META_APP_ID'', ''IG_APP_SECRET'', ''GRAPH_API_VERSION'', ''API_BASE_URL'',
      ''ENCRYPTION_KEY'', ''DATABASE_URL'', ''REDIS_URL'', ''OPENAI_API_KEY'', ''PORT'',
      ''IG_VERIFY_TOKEN'', ''REDIRECT_URI'']"

text \<open>Each placeholder pattern with its source text, which the result quotes.\<close>

definition placeholder_patterns :: "(string \<times> rx) list" where
  "placeholder_patterns =
     [(''sk-your_'', str ''sk-your_''),
      (''your_jwt_secret_here'', str ''your_jwt_secret_here''),
      (''your_instagram_app_id_here'', str ''your_instagram_app_id_here''),
      (''ENCRYPTION_KEY=.*(key_here|1234)'',
         cat [str ''ENCRYPTION_KEY='', rstar Dot, Grp (Alt (str ''key_here'') (str ''1234''))])]"

datatype env_validation =
    ValidationNotFound
  | ValidationScan string "string list" "string list"

definition scan_env_validation :: "string \<Rightarrow> entry list \<Rightarrow> env_validation" where
  "scan_env_validation root fs =
     (case rglob_nested ''startup/validation.ts'' fs @ rglob_nested ''config/environment.ts'' fs of
        [] \<Rightarrow> ValidationNotFound
      | c # _ \<Rightarrow>
          ValidationScan (path_str root c)
            (filter (\<lambda>key. \<not> re_search no_flags (str key) (read_text_safe c)) REQ_ENVS)
            (concat (map
               (\<lambda>ef. map (\<lambda>(src, pat). e_name ef @ '':'' @ src)
                         (filter (\<lambda>(src, pat). re_search no_flags pat (read_text_safe ef))
                                 placeholder_patterns))
               (find_any fs [''.env.example'', ''.env.sample'']))))"

subsection \<open>\<open>check_compose_ports\<close>\<close>

definition check_compose_ports :: "string \<Rightarrow> entry list \<Rightarrow> (string \<times> string \<times> string) list" where
  "check_compose_ports root fs =
     concat (map
       (\<lambda>p. concat (map (\<lambda>g. map (\<lambda>(host, cont). (path_str root p, host, cont)) (compose_pairs g))
              (finditer_group1 (no_flags\<lparr>dotall := True\<rparr>) rx_compose_ports (read_text_safe p))))
       (compose_files fs))"

section \<open>The entry point\<close>

datatype report_value =
    PortsSummary ports_summary
  | EnvValidation env_validation
  | Check check_result
  | ComposePorts "(string \<times> string \<times> string) list"
  | Score int int

type_synonym report = "(string \<times> report_value) list"

definition scored_checks :: "string list" where
  "scored_checks =
     [''pkce'', ''idempotency'', ''redis_required'', ''rate_limiter'', ''retry_backoff'', ''dlq'',
      ''token_renewal'', ''rls'', ''mapping_table'', ''hmac_rawbody'', ''openai_hardening'',
      ''media_validation'', ''docker_multistage'']"

text \<open>The thirteen check results, under the keys \<open>main\<close> stores them at.\<close>

definition run_checks :: "string \<Rightarrow> entry list \<Rightarrow> (string \<times> check_result) list" where
  "run_checks root fs =
     [(''pkce'', check_pkce root fs),
      (''idempotency'', check_idempotency root fs),
      (''redis_required'', check_redis_required root fs),
      (''rate_limiter'', check_rate_limiter root fs),
      (''retry_backoff'', check_retry_backoff root fs),
      (''dlq'', check_dlq root fs),
      (''token_renewal'', check_token_renewal root fs),
      (''rls'', check_rls root fs),
      (''mapping_table'', check_mapping_table root fs),
      (''hmac_rawbody'', check_hmac_rawbody root fs),
      (''openai_hardening'', check_openai_hardening root fs),
      (''media_validation'', check_media_validation root fs),
      (''docker_multistage'', check_docker_multistage root fs)]"

definition scans_report :: "string \<Rightarrow> entry list \<Rightarrow> report" where
  "scans_report root fs =
     [(''ports_summary'', PortsSummary (summarize_ports fs)),
      (''env_validation'', EnvValidation (scan_env_validation root fs))]
     @ map (\<lambda>(c, r). (c, Check r)) (run_checks root fs)
     @ [(''compose_ports'', ComposePorts (check_compose_ports root fs))]"

text \<open>\<open>report.get(c, {}).get("ok")\<close> as a truth value.\<close>

definition report_ok :: "report \<Rightarrow> string \<Rightarrow> bool" where
  "report_ok rep c = (case map_of rep c of Some (Check r) \<Rightarrow> ok r | _ \<Rightarrow> False)"

definition build_report :: "string \<Rightarrow> entry list \<Rightarrow> report" where
  "build_report root fs =
     (let rep = scans_report root fs;
          score = sum_list (map (\<lambda>c. (1::int)) (filter (report_ok rep) scored_checks))
      in rep @ [(''score'', Score score (int (length scored_checks)))])"

text \<open>
  \<open>main\<close> catches no exception, so every operation of it that can raise ends the run
  with a traceback instead of an exit code. These operations are the steps below:
  \<open>Path(arg).resolve()\<close>; \<open>root.exists()\<close>, which raises \<open>OSError\<close> when the test
  itself fails (a component longer than the file system allows, a directory that may
  not be searched); the walks and \<open>is_file\<close> tests of the scans; the two writes; and
  each \<open>print\<close>.

  The world \<open>main\<close> runs in says which steps raise, how the resolved root prints, and
  what tree stands below a root, \<open>None\<close> when the root does not exist. The rendering of
  the report as JSON and as Markdown is left out: each written file is given by its
  path and the report it is rendered from, each printed line by what it reports.
\<close>

datatype line = Usage | PathNotFound string | ScoreLine int int | Wrote string

datatype step = Resolve string | Exists string | Walk string | Write string | Print line

record world =
  w_resolve :: "string \<Rightarrow> string"
  w_tree :: "string \<Rightarrow> entry list option"
  w_raises :: "step \<Rightarrow> bool"

datatype outcome = Exit int | Uncaught

record run =
  outcome :: outcome
  printed :: "line list"
  written :: "(string \<times> report) list"

definition child :: "string \<Rightarrow> string \<Rightarrow> string" where
  "child root n = (if root = ''/'' then [] else root) @ CHR ''/'' # n"

definition score_line :: "report \<Rightarrow> line list" where
  "score_line rep = (case map_of rep ''score'' of Some (Score p t) \<Rightarrow> [ScoreLine p t] | _ \<Rightarrow> [])"

text \<open>The lines are printed one after the other; the first \<open>print\<close> that raises ends the
  run, otherwise the run ends with the exit code \<open>code\<close>.\<close>

definition print_then :: "world \<Rightarrow> line list \<Rightarrow> int \<Rightarrow> (string \<times> report) list \<Rightarrow> run" where
  "print_then w ls code files =
     \<lparr>outcome = (if list_ex (\<lambda>l. w_raises w (Print l)) ls then Uncaught else Exit code),
      printed = takeWhile (\<lambda>l. \<not> w_raises w (Print l)) ls,
      written = files\<rparr>"

definition main :: "string list \<Rightarrow> world \<Rightarrow> run" where
  "main argv w =
     (if length argv < 2 then print_then w [Usage] 2 []
      else if w_raises w (Resolve (argv ! 1))
        then \<lparr>outcome = Uncaught, printed = [], written = []\<rparr>
      else
        let root = w_resolve w (argv ! 1) in
        if w_raises w (Exists root) then \<lparr>outcome = Uncaught, printed = [], written = []\<rparr>
        else
        (case w_tree w root of
           None \<Rightarrow> print_then w [PathNotFound root] 2 []
         | Some fs \<Rightarrow>
             let rep = build_report root fs;
                 json = child root ''audit_report.json'';
                 md = child root ''audit_report.md''
             in if w_raises w (Walk root) then \<lparr>outcome = Uncaught, printed = [], written = []\<rparr>
                else if w_raises w (Write json)
                  then \<lparr>outcome = Uncaught, printed = [], written = []\<rparr>
                else if w_raises w (Write md)
                  then \<lparr>outcome = Uncaught, printed = [], written = [(json, rep)]\<rparr>
                else print_then w (score_line rep @ [Wrote json, Wrote md]) 0
                       [(json, rep), (md, rep)]))"

section \<open>Notions used in the statements\<close>

text \<open>A group hits a text when one of its patterns is found in it, under the flags of
  \<open>search_patterns\<close>.\<close>

definition grp_hit :: "rx list \<Rightarrow> string \<Rightarrow> bool" where
  "grp_hit regs t = list_ex (\<lambda>rx. re_search search_flags rx t) regs"

text \<open>The entries \<open>search_patterns\<close> reads, in the order it reads them.\<close>

definition searched :: "entry list \<Rightarrow> entry list" where
  "searched fs = glob_files fs search_globs"

text \<open>The complete evidence of a group: the path of every searched entry it hits.\<close>

definition evidence :: "string \<Rightarrow> entry list \<Rightarrow> rx list \<Rightarrow> string list" where
  "evidence root fs regs =
     map (path_str root) (filter (\<lambda>p. grp_hit regs (read_text_safe p)) (searched fs))"

text \<open>What scanning one file appends under the key \<open>k\<close>.\<close>

definition adds :: "string \<Rightarrow> string \<Rightarrow> patterns \<Rightarrow> string \<Rightarrow> string list" where
  "adds path t ps k =
     concat (map (\<lambda>(k', regs). if k' = k \<and> grp_hit regs t then [path] else []) ps)"

definition group_regs :: "patterns \<Rightarrow> string \<Rightarrow> rx list" where
  "group_regs pats k = (case map_of pats k of Some regs \<Rightarrow> regs | None \<Rightarrow> [])"

text \<open>The pattern table of every scored check.\<close>

definition catalogue :: "(string \<times> patterns) list" where
  "catalogue =
     [(''pkce'', pkce_pats),
      (''idempotency'', idempotency_pats),
      (''redis_required'', redis_required_pats),
      (''rate_limiter'', rate_limiter_pats),
      (''retry_backoff'', retry_backoff_pats),
      (''dlq'', dlq_pats),
      (''token_renewal'', token_renewal_pats),
      (''rls'', rls_pats),
      (''mapping_table'', mapping_table_pats),
      (''hmac_rawbody'', hmac_rawbody_pats),
      (''openai_hardening'', openai_hardening_pats),
      (''media_validation'', media_validation_pats),
      (''docker_multistage'', docker_multistage_pats)]"

text \<open>One result against the result of the same check on a larger tree: a passed check
  stays passed, and every group keeps its hits, in order, among those of the larger tree.\<close>

definition grows :: "check_result \<Rightarrow> check_result \<Rightarrow> bool" where
  "grows r r' =
     ((ok r \<longrightarrow> ok r') \<and>
      list_all2 (\<lambda>(k, h) (k', h'). k = k' \<and> subseq h h') (hits r) (hits r'))"

text \<open>
  Two texts that differ in letter case only, position by position; entries, and trees,
  that differ only so in their texts; matcher states that differ only so.
\<close>

definition same_letter :: "char \<Rightarrow> char \<Rightarrow> bool" where
  "same_letter c d = (d = c \<or> d = swapcase c)"

definition recased :: "string \<Rightarrow> string \<Rightarrow> bool" where
  "recased t t' = list_all2 same_letter t t'"

definition recased_entry :: "entry \<Rightarrow> entry \<Rightarrow> bool" where
  "recased_entry e e' =
     (e_dirs e' = e_dirs e \<and> e_name e' = e_name e \<and> e_is_file e' = e_is_file e \<and>
      rel_option recased (e_text e) (e_text e'))"

definition recased_tree :: "entry list \<Rightarrow> entry list \<Rightarrow> bool" where
  "recased_tree fs fs' = list_all2 recased_entry fs fs'"

definition recased_state :: "mstate \<Rightarrow> mstate \<Rightarrow> bool" where
  "recased_state st st' =
     (case (st, st') of ((p, s, cs), (p', s', cs')) \<Rightarrow>
        rel_option same_letter p p' \<and> recased s s' \<and> list_all2 recased cs cs')"

definition score_of :: "report \<Rightarrow> (int \<times> int) option" where
  "score_of rep = (case map_of rep ''score'' of Some (Score p t) \<Rightarrow> Some (p, t) | _ \<Rightarrow> None)"

subsection \<open>Sample trees\<close>

definition text_file :: "string list \<Rightarrow> string \<Rightarrow> string \<Rightarrow> entry" where
  "text_file ds n t = \<lparr>e_dirs = ds, e_name = n, e_is_file = True, e_text = Some t\<rparr>"

definition dockerfile_text :: string where
  "dockerfile_text = ''FROM node:18 AS build'' @ [newline] @ ''EXPOSE 3000'' @ [newline]"

definition redis_tree :: "entry list" where
  "redis_tree = [text_file [''src''] ''cache.ts'' ''REDIS_URL'']"

definition tls_tree :: "entry list" where
  "tls_tree = [text_file [''src''] ''cache.ts'' ''rediss://cache:6379'']"

definition hook_tree :: "entry list" where
  "hook_tree = [text_file [''src''] ''hook.ts'' ''X-Hub-Signature-256'']"

definition unique_sql :: entry where
  "unique_sql = text_file [''db''] ''m.sql'' ''UNIQUE(merchant_id,event_id)''"

definition unique_text :: string where
  "unique_text = ''UNIQUE (merchant_id, event_id)''"

definition port_text :: string where
  "port_text = ''const port = process.env.PORT || 8080; app.listen(3000)''"

definition schema_tree :: "entry list" where
  "schema_tree =
     [text_file [''db''] ''schema.sql'' (''CREATE TABLE t (id int, '' @ unique_text @ '')'')]"

definition server_tree :: "entry list" where
  "server_tree = [text_file [''src''] ''server.ts'' port_text]"

definition mixed_case_tree :: "entry list" where
  "mixed_case_tree = [text_file [''src''] ''cfg.ts'' ''x = My_Redis_URL_1'']"

definition midline_tree :: "entry list" where
  "midline_tree = [text_file [''src''] ''cfg.ts'' ''x = my_redis_url_1'']"

text \<open>A world in which no step raises and every argument resolves to itself; and one
  in which \<open>exists()\<close> raises for a root with a name of more than 255 characters, as the
  file system reports \<open>ENAMETOOLONG\<close>.\<close>

definition sample_world :: "entry list option \<Rightarrow> world" where
  "sample_world tree = \<lparr>w_resolve = (\<lambda>a. a), w_tree = (\<lambda>r. tree), w_raises = (\<lambda>st. False)\<rparr>"



section \<open>Case folding on the bits of a character\<close>

text \<open>Swapping the case of an ASCII letter flips bit 5 of its code; the equation also
  serves to evaluate \<open>swapcase\<close>.\<close>

lemma swapcase_bits [code]:
  "swapcase (Char b0 b1 b2 b3 b4 b5 b6 b7) =
     (if \<not> b7 \<and> b6 \<and> (b0 \<or> b1 \<or> b2 \<or> b3 \<or> b4) \<and> \<not> (b4 \<and> b3 \<and> (b2 \<or> (b1 \<and> b0)))
      then Char b0 b1 b2 b3 b4 (\<not> b5) b6 b7 else Char b0 b1 b2 b3 b4 b5 b6 b7)"
  unfolding swapcase_def is_upper_def is_lower_def
  by (cases b0; cases b1; cases b2; cases b3; cases b4; cases b5; cases b6; cases b7;
      simp add: char_of_def bit_Suc_0_iff)

lemma swapcase_swapcase: "swapcase (swapcase c) = c"
  by (cases c) (auto simp: swapcase_bits)

lemma swapcase_newline: "(swapcase c = newline) = (c = newline)"
  by (cases c) (auto simp: swapcase_bits newline_def)

section \<open>What \<open>search_patterns\<close> computes\<close>

lemma scan_regs_eq:
  "scan_regs path t key regs hs = (if grp_hit regs t then dict_append key path hs else hs)"
  by (induction regs) (auto simp: grp_hit_def)

lemma fold_scan_regs:
  "fold (\<lambda>(key, regs) h. scan_regs path t key regs h) ps hs =
   map (\<lambda>(k, h). (k, h @ adds path t ps k)) hs"
proof (induction ps arbitrary: hs)
  case Nil
  show ?case by (simp add: adds_def)
next
  case (Cons a ps)
  obtain k' regs where a: "a = (k', regs)" by (cases a)
  have "fold (\<lambda>(key, regs) h. scan_regs path t key regs h) (a # ps) hs =
        fold (\<lambda>(key, regs) h. scan_regs path t key regs h) ps (scan_regs path t k' regs hs)"
    by (simp add: a)
  also have "\<dots> = map (\<lambda>(k, h). (k, h @ adds path t ps k)) (scan_regs path t k' regs hs)"
    by (rule Cons.IH)
  also have "\<dots> = map (\<lambda>(k, h). (k, h @ adds path t (a # ps) k)) hs"
    by (auto simp: a scan_regs_eq dict_append_def adds_def)
  finally show ?case .
qed

lemma adds_absent: "k \<notin> fst ` set ps \<Longrightarrow> adds path t ps k = []"
  by (induction ps) (auto simp: adds_def)

lemma adds_distinct:
  "distinct (map fst ps) \<Longrightarrow> (k, regs) \<in> set ps \<Longrightarrow>
   adds path t ps k = (if grp_hit regs t then [path] else [])"
proof (induction ps)
  case Nil
  then show ?case by simp
next
  case (Cons a ps)
  obtain k' regs' where a: "a = (k', regs')" by (cases a)
  show ?case
  proof (cases "k' = k")
    case True
    with Cons.prems a have r: "regs' = regs" by (auto simp: image_iff)
    from Cons.prems a True have "k \<notin> fst ` set ps" by simp
    then have "adds path t ps k = []" by (rule adds_absent)
    with True r a show ?thesis by (simp add: adds_def)
  next
    case False
    with Cons.prems a have "(k, regs) \<in> set ps" "distinct (map fst ps)" by auto
    with Cons.IH have "adds path t ps k = (if grp_hit regs t then [path] else [])" by simp
    with False a show ?thesis by (simp add: adds_def)
  qed
qed

lemma scan_file_eq:
  assumes "distinct (map fst pats)"
  shows "scan_file root pats p (map (\<lambda>(k, regs). (k, F regs)) pats) =
         map (\<lambda>(k, regs).
               (k, F regs @ (if grp_hit regs (read_text_safe p) then [path_str root p] else [])))
             pats"
  unfolding scan_file_def fold_scan_regs
  using adds_distinct [OF assms]
  by (auto simp: split_def)

lemma fold_scan_file:
  assumes "distinct (map fst pats)"
  shows "fold (scan_file root pats) ps (map (\<lambda>(k, regs). (k, F regs)) pats) =
         map (\<lambda>(k, regs).
               (k, F regs @ map (path_str root) (filter (\<lambda>p. grp_hit regs (read_text_safe p)) ps)))
             pats"
proof (induction ps arbitrary: F)
  case Nil
  show ?case by simp
next
  case (Cons p ps)
  have "fold (scan_file root pats) (p # ps) (map (\<lambda>(k, regs). (k, F regs)) pats) =
        fold (scan_file root pats) ps
          (map (\<lambda>(k, regs).
                 (k, F regs @ (if grp_hit regs (read_text_safe p) then [path_str root p] else [])))
               pats)"
    by (simp add: scan_file_eq [OF assms])
  also have "\<dots> =
        map (\<lambda>(k, regs).
              (k, (F regs @ (if grp_hit regs (read_text_safe p) then [path_str root p] else []))
                  @ map (path_str root) (filter (\<lambda>p. grp_hit regs (read_text_safe p)) ps)))
            pats"
    by (rule Cons.IH)
  also have "\<dots> =
        map (\<lambda>(k, regs).
              (k, F regs @ map (path_str root)
                    (filter (\<lambda>p. grp_hit regs (read_text_safe p)) (p # ps))))
            pats"
    by auto
  finally show ?case .
qed

lemma search_patterns_eq:
  assumes "distinct (map fst pats)"
  shows "search_patterns root fs pats = map (\<lambda>(k, regs). (k, evidence root fs regs)) pats"
  using fold_scan_file [OF assms, of root "searched fs" "\<lambda>_. []"]
  by (simp add: search_patterns_def evidence_def searched_def)

lemma map_of_map_values:
  "map_of (map (\<lambda>(k, v). (k, g v)) ps) k = map_option g (map_of ps k)"
  by (induction ps) auto

lemma hits_at_search_patterns:
  assumes "distinct (map fst pats)"
  shows "hits_at (search_patterns root fs pats) k = evidence root fs (group_regs pats k)"
proof -
  have "evidence root fs [] = []"
    by (simp add: evidence_def grp_hit_def)
  then show ?thesis
    by (simp add: search_patterns_eq [OF assms] hits_at_def group_regs_def map_of_map_values
        split: option.splits)
qed

lemmas check_defs =
  check_pkce_def check_idempotency_def check_redis_required_def
  check_rate_limiter_def check_retry_backoff_def check_dlq_def check_token_renewal_def
  check_rls_def check_mapping_table_def check_hmac_rawbody_def check_openai_hardening_def
  check_media_validation_def check_docker_multistage_def

lemmas pats_defs =
  pkce_pats_def idempotency_pats_def redis_required_pats_def rate_limiter_pats_def
  retry_backoff_pats_def dlq_pats_def token_renewal_pats_def rls_pats_def mapping_table_pats_def
  hmac_rawbody_pats_def openai_hardening_pats_def media_validation_pats_def
  docker_multistage_pats_def

section \<open>Which files the checks read\<close>

text \<open>
  Claim C1. The claim: the pattern groups of every check are also evaluated against
  files selected by name alone, so that a tree whose only evidence for the
  docker-multistage check lies in a file named \<open>Dockerfile\<close> yields hits. The code
  does otherwise: \<open>search_patterns\<close> reads only the names matching \<open>*.ts\<close>, \<open>*.js\<close>,
  \<open>*.sql\<close>, \<open>*.yml\<close> and \<open>*.yaml\<close>. For a tree holding one \<open>Dockerfile\<close> with a build
  stage and an \<open>EXPOSE\<close> line the check fails with no hit, although the same text in
  \<open>build.yml\<close> passes and \<open>summarize_ports\<close> does read the \<open>Dockerfile\<close>; a \<open>.env\<close>
  file naming \<open>REDIS_URL\<close> gives the Redis check no hit either.
\<close>

theorem dockerfile_not_searched:
  "check_docker_multistage ''/srv/app'' [text_file [] ''Dockerfile'' dockerfile_text] =
     \<lparr>ok = False, hits = [(''has_build_stage'', []), (''runtime_stage'', [])]\<rparr>
   \<and> check_docker_multistage ''/srv/app'' [text_file [] ''build.yml'' dockerfile_text] =
     \<lparr>ok = True, hits = [(''has_build_stage'', [''/srv/app/build.yml'']),
                        (''runtime_stage'', [''/srv/app/build.yml''])]\<rparr>
   \<and> ps_dockerfile (summarize_ports [text_file [] ''Dockerfile'' dockerfile_text]) = [''3000'']
   \<and> hits (check_redis_required ''/srv/app''
              [text_file [] ''.env'' ''REDIS_URL=rediss://cache:6379'']) =
       [(''env_required'', []), (''fail_on_end'', []), (''rediss_tls'', [])]"
  by code_simp

section \<open>The score\<close>

lemma run_checks_keys: "map fst (run_checks root fs) = scored_checks"
  by (simp add: run_checks_def scored_checks_def)

lemma report_ok_run_checks:
  "map (report_ok (scans_report root fs)) scored_checks =
   map (\<lambda>(c, r). ok r) (run_checks root fs)"
  by (simp add: scored_checks_def report_ok_def scans_report_def run_checks_def)

lemma length_filter_map: "length (filter P xs) = length (filter (\<lambda>b. b) (map P xs))"
  by (induction xs) auto

lemma score_of_build_report:
  "score_of (build_report root fs) =
     Some (int (length (filter (\<lambda>(c, r). ok r) (run_checks root fs))), 13)"
proof -
  have k: "map_of (scans_report root fs) ''score'' = None"
    by (simp add: scans_report_def run_checks_def)
  have "length (filter (report_ok (scans_report root fs)) scored_checks) =
        length (filter (\<lambda>(c, r). ok r) (run_checks root fs))"
    using report_ok_run_checks [of root fs]
    by (metis length_filter_map)
  moreover have "sum_list (map (\<lambda>c. (1::int)) xs) = int (length xs)" for xs :: "string list"
    by (induction xs) auto
  moreover have "length scored_checks = 13" by (simp add: scored_checks_def)
  ultimately show ?thesis
    by (simp add: score_of_def build_report_def Let_def map_add_def k)
qed

text \<open>
  Claim C3. For every tree the report's score satisfies \<open>0 \<le> passed \<le> total\<close>; the
  total is the number of scored checks, 13 whatever the tree holds, and the entries
  \<open>ports_summary\<close>, \<open>env_validation\<close> and \<open>compose_ports\<close> are not among them; passed is
  the number of scored checks whose result has \<open>ok\<close> true.
\<close>

theorem score_invariant:
  "(\<exists>p t. score_of (build_report root fs) = Some (p, t)
      \<and> 0 \<le> p \<and> p \<le> t
      \<and> t = int (length scored_checks) \<and> t = 13
      \<and> p = int (length (filter (\<lambda>(c, r). ok r) (run_checks root fs))))
   \<and> map fst (run_checks root fs) = scored_checks
   \<and> map (report_ok (build_report root fs)) scored_checks =
       map (\<lambda>(c, r). ok r) (run_checks root fs)
   \<and> ''ports_summary'' \<notin> set scored_checks
   \<and> ''env_validation'' \<notin> set scored_checks
   \<and> ''compose_ports'' \<notin> set scored_checks"
proof -
  have len: "length (run_checks root fs) = 13"
    by (simp add: run_checks_def)
  have "length (filter (\<lambda>(c, r). ok r) (run_checks root fs)) \<le> length (run_checks root fs)"
    by (rule length_filter_le)
  with len have le: "int (length (filter (\<lambda>(c, r). ok r) (run_checks root fs))) \<le> 13"
    by simp
  have same: "map (report_ok (build_report root fs)) scored_checks =
              map (report_ok (scans_report root fs)) scored_checks"
    by (simp add: build_report_def Let_def report_ok_def scored_checks_def scans_report_def
        run_checks_def)
  have excl: "''ports_summary'' \<notin> set scored_checks \<and> ''env_validation'' \<notin> set scored_checks
     \<and> ''compose_ports'' \<notin> set scored_checks \<and> int (length scored_checks) = 13"
    by (simp add: scored_checks_def)
  show ?thesis
    using le excl
    by (simp add: score_of_build_report run_checks_keys same report_ok_run_checks)
qed

lemma redis_tree_oks:
  "map (\<lambda>(c, r). ok r) (run_checks ''/srv/app'' redis_tree) =
     [False, False, True, False, False, False, False, False, False, False, False, False, False]"
  by code_simp

theorem score_invariant_witness:
  "score_of (build_report ''/srv/app'' redis_tree) = Some (1, 13)
   \<and> map (report_ok (build_report ''/srv/app'' redis_tree)) scored_checks =
       [False, False, True, False, False, False, False, False, False, False, False, False, False]"
proof -
  have "length (filter (\<lambda>(c, r). ok r) (run_checks ''/srv/app'' redis_tree)) =
        length (filter (\<lambda>b. b) (map (\<lambda>(c, r). ok r) (run_checks ''/srv/app'' redis_tree)))"
    by (rule length_filter_map)
  then have "length (filter (\<lambda>(c, r). ok r) (run_checks ''/srv/app'' redis_tree)) = 1"
    by (simp add: redis_tree_oks)
  with score_invariant [of "''/srv/app''" redis_tree] redis_tree_oks show ?thesis
    by auto
qed

section \<open>Exit codes\<close>

lemma score_line_of: "score_of rep = Some (p, t) \<Longrightarrow> score_line rep = [ScoreLine p t]"
  by (auto simp: score_of_def score_line_def split: option.splits report_value.splits)





section \<open>The empty tree\<close>

lemma empty_tree_checks:
  "list_all (\<lambda>(c, r). \<not> ok r \<and> list_all (\<lambda>(k, h). h = []) (hits r)) (run_checks root [])"
  by (simp add: run_checks_def check_defs search_patterns_def glob_files_def rglob_def
      pats_defs hits_at_def search_globs_def)

text \<open>
  Claim C6. On a tree with no files every scored check has \<open>ok\<close> false and an empty
  hit list under each group of its pattern table, the score is 0 of 13, and \<open>main\<close>
  completes with exit code 0 once the steps around the scan (resolving and testing the
  root, the walk, the two writes, the three prints) go through: absence of evidence
  raises nothing.
\<close>

theorem empty_corpus_report:
  "list_all (\<lambda>(c, r). \<not> ok r \<and> list_all (\<lambda>(k, h). h = []) (hits r)) (run_checks root [])
   \<and> map fst (run_checks root []) = scored_checks
   \<and> map (\<lambda>(c, r). (c, map fst (hits r))) (run_checks root []) =
       map (\<lambda>(c, pats). (c, map fst pats)) catalogue
   \<and> score_of (build_report root []) = Some (0, 13)
   \<and> (\<not> w_raises w (Resolve a)
        \<and> \<not> w_raises w (Exists (w_resolve w a))
        \<and> w_tree w (w_resolve w a) = Some []
        \<and> \<not> w_raises w (Walk (w_resolve w a))
        \<and> \<not> w_raises w (Write (child (w_resolve w a) ''audit_report.json''))
        \<and> \<not> w_raises w (Write (child (w_resolve w a) ''audit_report.md''))
        \<and> \<not> w_raises w (Print (ScoreLine 0 13))
        \<and> \<not> w_raises w (Print (Wrote (child (w_resolve w a) ''audit_report.json'')))
        \<and> \<not> w_raises w (Print (Wrote (child (w_resolve w a) ''audit_report.md''))) \<longrightarrow>
      outcome (main [prog, a] w) = Exit 0
      \<and> map snd (written (main [prog, a] w)) =
          [build_report (w_resolve w a) [], build_report (w_resolve w a) []])"
proof -
  have "filter (\<lambda>(c, r). ok r) (run_checks root []) = []" for root
    using empty_tree_checks [of root] by (auto simp: filter_empty_conv list_all_iff)
  then have z: "score_of (build_report root []) = Some (0, 13)" for root
    by (simp add: score_of_build_report)
  have "map (\<lambda>(c, r). (c, map fst (hits r))) (run_checks root []) =
       map (\<lambda>(c, pats). (c, map fst pats)) catalogue"
    by (simp add: run_checks_def check_defs search_patterns_def glob_files_def rglob_def
        pats_defs search_globs_def catalogue_def Let_def)
  then show ?thesis
    by (simp add: empty_tree_checks run_checks_keys main_def Let_def print_then_def z
        score_line_of [OF z])
qed

theorem empty_corpus_report_witness:
  "outcome (main [''audit.py'', ''/srv/app''] (sample_world (Some []))) = Exit 0
   \<and> map snd (written (main [''audit.py'', ''/srv/app''] (sample_world (Some [])))) =
        [build_report ''/srv/app'' [], build_report ''/srv/app'' []]
   \<and> score_of (build_report ''/srv/app'' []) = Some (0, 13)"
  using empty_corpus_report [of "''/srv/app''" "sample_world (Some [])" "''/srv/app''" "''audit.py''"]
  by (simp add: sample_world_def)

section \<open>Evidence of every group\<close>

lemma pats_distinct:
  "distinct (map fst pkce_pats)" "distinct (map fst idempotency_pats)"
  "distinct (map fst redis_required_pats)" "distinct (map fst rate_limiter_pats)"
  "distinct (map fst retry_backoff_pats)" "distinct (map fst dlq_pats)"
  "distinct (map fst token_renewal_pats)" "distinct (map fst rls_pats)"
  "distinct (map fst mapping_table_pats)" "distinct (map fst hmac_rawbody_pats)"
  "distinct (map fst openai_hardening_pats)" "distinct (map fst media_validation_pats)"
  "distinct (map fst docker_multistage_pats)"
  by (simp_all add: pats_defs)

lemma evidence_nonempty:
  "(evidence root fs regs \<noteq> []) = list_ex (\<lambda>p. grp_hit regs (read_text_safe p)) (searched fs)"
  by (simp add: evidence_def filter_empty_conv list_ex_iff)

lemma run_checks_hits:
  "map (\<lambda>(c, r). (c, hits r)) (run_checks root fs) =
   map (\<lambda>(c, pats). (c, map (\<lambda>(k, regs). (k, evidence root fs regs)) pats)) catalogue"
  by (simp add: run_checks_def catalogue_def check_defs Let_def search_patterns_eq pats_distinct)

text \<open>
  Claim C10. The Redis check passes exactly when its \<open>env_required\<close> group has a hit,
  that is when some searched file holds one of that group's patterns. The groups
  \<open>fail_on_end\<close> and \<open>rediss_tls\<close> are searched and reported in \<open>hits\<close> with their full
  evidence, and take no part in \<open>ok\<close>.
\<close>

theorem redis_required_ok_is_env_required:
  "ok (check_redis_required root fs) =
     (hits_at (hits (check_redis_required root fs)) ''env_required'' \<noteq> [])
   \<and> ok (check_redis_required root fs) =
     list_ex (\<lambda>p. grp_hit (group_regs redis_required_pats ''env_required'') (read_text_safe p))
       (searched fs)
   \<and> hits (check_redis_required root fs) =
     map (\<lambda>(k, regs). (k, evidence root fs regs)) redis_required_pats
   \<and> map fst redis_required_pats = [''env_required'', ''fail_on_end'', ''rediss_tls'']"
proof -
  have "hits_at (search_patterns root fs redis_required_pats) ''env_required'' =
        evidence root fs (group_regs redis_required_pats ''env_required'')"
    by (rule hits_at_search_patterns) (rule pats_distinct)
  then show ?thesis
    by (simp add: check_redis_required_def Let_def evidence_nonempty
        search_patterns_eq pats_distinct)
       (simp add: redis_required_pats_def)
qed

theorem redis_required_ok_is_env_required_witness:
  "\<not> ok (check_redis_required ''/srv/app'' tls_tree)
   \<and> hits (check_redis_required ''/srv/app'' tls_tree) =
       [(''env_required'', []), (''fail_on_end'', []), (''rediss_tls'', [''/srv/app/src/cache.ts''])]"
proof -
  have "hits (check_redis_required ''/srv/app'' tls_tree) =
       [(''env_required'', []), (''fail_on_end'', []), (''rediss_tls'', [''/srv/app/src/cache.ts''])]"
    by code_simp
  with redis_required_ok_is_env_required [of "''/srv/app''" tls_tree] show ?thesis
    by (simp add: hits_at_def)
qed

text \<open>
  Claim C4. Group evaluation is never cut short: for every tree the \<open>hits\<close> of each of
  the thirteen checks hold one entry per group of its pattern table, each the complete
  evidence of that group. For the webhook-signature check, a tree in which some searched
  file satisfies \<open>header_check\<close> and none satisfies \<open>raw_body_used\<close> or
  \<open>timing_safe_equal\<close> gives \<open>ok\<close> false, a non-empty hit list for \<open>header_check\<close> and
  empty ones for the other two.
\<close>

theorem every_group_reported:
  "map (\<lambda>(c, r). (c, hits r)) (run_checks root fs) =
     map (\<lambda>(c, pats). (c, map (\<lambda>(k, regs). (k, evidence root fs regs)) pats)) catalogue
   \<and> (list_ex (\<lambda>p. grp_hit (group_regs hmac_rawbody_pats ''header_check'') (read_text_safe p))
         (searched fs)
       \<and> \<not> list_ex (\<lambda>p. grp_hit (group_regs hmac_rawbody_pats ''raw_body_used'') (read_text_safe p))
         (searched fs)
       \<and> \<not> list_ex (\<lambda>p. grp_hit (group_regs hmac_rawbody_pats ''timing_safe_equal'') (read_text_safe p))
         (searched fs)
      \<longrightarrow> \<not> ok (check_hmac_rawbody root fs)
        \<and> hits_at (hits (check_hmac_rawbody root fs)) ''header_check'' \<noteq> []
        \<and> hits_at (hits (check_hmac_rawbody root fs)) ''raw_body_used'' = []
        \<and> hits_at (hits (check_hmac_rawbody root fs)) ''timing_safe_equal'' = [])"
proof -
  have h: "hits_at (search_patterns root fs hmac_rawbody_pats) k =
        evidence root fs (group_regs hmac_rawbody_pats k)" for k
    by (rule hits_at_search_patterns) (rule pats_distinct)
  have e: "(evidence root fs regs = []) =
        (\<not> list_ex (\<lambda>p. grp_hit regs (read_text_safe p)) (searched fs))" for regs
    using evidence_nonempty [of root fs regs] by blast
  show ?thesis
    by (simp add: run_checks_hits check_hmac_rawbody_def Let_def h e)
qed

theorem every_group_reported_witness:
  "check_hmac_rawbody ''/srv/app'' hook_tree =
     \<lparr>ok = False,
      hits = [(''header_check'', [''/srv/app/src/hook.ts'']), (''raw_body_used'', []),
              (''timing_safe_equal'', [])]\<rparr>
   \<and> hits_at (hits (check_hmac_rawbody ''/srv/app'' hook_tree)) ''header_check'' \<noteq> []
   \<and> hits_at (hits (check_hmac_rawbody ''/srv/app'' hook_tree)) ''raw_body_used'' = []
   \<and> hits_at (hits (check_hmac_rawbody ''/srv/app'' hook_tree)) ''timing_safe_equal'' = []"
proof -
  have a: "list_ex (\<lambda>p. grp_hit (group_regs hmac_rawbody_pats ''header_check'') (read_text_safe p))
         (searched hook_tree)"
    by code_simp
  have b: "\<not> list_ex (\<lambda>p. grp_hit (group_regs hmac_rawbody_pats ''raw_body_used'') (read_text_safe p))
         (searched hook_tree)"
    by code_simp
  have c: "\<not> list_ex (\<lambda>p. grp_hit (group_regs hmac_rawbody_pats ''timing_safe_equal'') (read_text_safe p))
         (searched hook_tree)"
    by code_simp
  have d: "hits (check_hmac_rawbody ''/srv/app'' hook_tree) =
      [(''header_check'', [''/srv/app/src/hook.ts'']), (''raw_body_used'', []),
              (''timing_safe_equal'', [])]"
    by code_simp
  from every_group_reported [of "''/srv/app''" hook_tree] a b c
  have "\<not> ok (check_hmac_rawbody ''/srv/app'' hook_tree)
        \<and> hits_at (hits (check_hmac_rawbody ''/srv/app'' hook_tree)) ''header_check'' \<noteq> []
        \<and> hits_at (hits (check_hmac_rawbody ''/srv/app'' hook_tree)) ''raw_body_used'' = []
        \<and> hits_at (hits (check_hmac_rawbody ''/srv/app'' hook_tree)) ''timing_safe_equal'' = []"
    by blast
  with d show ?thesis
    by (cases "check_hmac_rawbody ''/srv/app'' hook_tree") simp
qed

section \<open>Adding a file\<close>

lemma searched_mono: "subseq (searched (xs @ ys)) (searched (xs @ f # ys))"
proof -
  have base: "subseq (xs @ ys) (xs @ f # ys)"
    by (auto simp: subseq_append' intro: list_emb_Cons)
  have one: "subseq (rglob pat (xs @ ys)) (rglob pat (xs @ f # ys))" for pat
    unfolding rglob_def by (rule subseq_filter [OF base])
  have "subseq (concat (map (\<lambda>pat. rglob pat (xs @ ys)) pats))
               (concat (map (\<lambda>pat. rglob pat (xs @ f # ys)) pats))" for pats
    by (induction pats) (auto intro: list_emb_append_mono one)
  then show ?thesis
    by (simp add: searched_def glob_files_def)
qed

lemma evidence_mono:
  "subseq (evidence root (xs @ ys) regs) (evidence root (xs @ f # ys) regs)"
  unfolding evidence_def
  by (intro subseq_map subseq_filter searched_mono)

lemma hits_mono:
  assumes "distinct (map fst pats)"
  shows "list_all2 (\<lambda>(k, h) (k', h'). k = k' \<and> subseq h h')
           (search_patterns root (xs @ ys) pats) (search_patterns root (xs @ f # ys) pats)"
  by (simp add: search_patterns_eq [OF assms] list_all2_map1 list_all2_map2 split_def
      evidence_mono list_all2_same)

lemma hits_at_mono:
  assumes "distinct (map fst pats)"
  shows "hits_at (search_patterns root (xs @ ys) pats) k \<noteq> [] \<Longrightarrow>
         hits_at (search_patterns root (xs @ f # ys) pats) k \<noteq> []"
  using evidence_mono [of root xs ys "group_regs pats k" f]
  by (auto simp: hits_at_search_patterns [OF assms])

lemma all_hit_mono:
  assumes "distinct (map fst pats)"
  shows "list_all (\<lambda>(k, h). h \<noteq> []) (search_patterns root (xs @ ys) pats) \<Longrightarrow>
         list_all (\<lambda>(k, h). h \<noteq> []) (search_patterns root (xs @ f # ys) pats)"
proof -
  have "evidence root (xs @ ys) regs \<noteq> [] \<Longrightarrow> evidence root (xs @ f # ys) regs \<noteq> []" for regs
    using evidence_mono [of root xs ys regs f] by auto
  then show "list_all (\<lambda>(k, h). h \<noteq> []) (search_patterns root (xs @ ys) pats) \<Longrightarrow>
         list_all (\<lambda>(k, h). h \<noteq> []) (search_patterns root (xs @ f # ys) pats)"
    by (auto simp: search_patterns_eq [OF assms] list_all_iff)
qed

lemma grows_checks:
  "grows (check_pkce root (xs @ ys)) (check_pkce root (xs @ f # ys))"
  "grows (check_idempotency root (xs @ ys)) (check_idempotency root (xs @ f # ys))"
  "grows (check_redis_required root (xs @ ys)) (check_redis_required root (xs @ f # ys))"
  "grows (check_rate_limiter root (xs @ ys)) (check_rate_limiter root (xs @ f # ys))"
  "grows (check_retry_backoff root (xs @ ys)) (check_retry_backoff root (xs @ f # ys))"
  "grows (check_dlq root (xs @ ys)) (check_dlq root (xs @ f # ys))"
  "grows (check_token_renewal root (xs @ ys)) (check_token_renewal root (xs @ f # ys))"
  "grows (check_rls root (xs @ ys)) (check_rls root (xs @ f # ys))"
  "grows (check_mapping_table root (xs @ ys)) (check_mapping_table root (xs @ f # ys))"
  "grows (check_hmac_rawbody root (xs @ ys)) (check_hmac_rawbody root (xs @ f # ys))"
  "grows (check_openai_hardening root (xs @ ys)) (check_openai_hardening root (xs @ f # ys))"
  "grows (check_media_validation root (xs @ ys)) (check_media_validation root (xs @ f # ys))"
  "grows (check_docker_multistage root (xs @ ys)) (check_docker_multistage root (xs @ f # ys))"
  unfolding grows_def check_defs Let_def
  using hits_at_mono [OF pats_distinct(1)] hits_at_mono [OF pats_distinct(2)]
   hits_at_mono [OF pats_distinct(3)] hits_at_mono [OF pats_distinct(4)]
   hits_at_mono [OF pats_distinct(5)] hits_at_mono [OF pats_distinct(6)]
   hits_at_mono [OF pats_distinct(7)] hits_at_mono [OF pats_distinct(8)]
   hits_at_mono [OF pats_distinct(9)] hits_at_mono [OF pats_distinct(10)]
   hits_at_mono [OF pats_distinct(11)] hits_at_mono [OF pats_distinct(12)]
   hits_at_mono [OF pats_distinct(13)] all_hit_mono [OF pats_distinct(1)]
  by (auto simp add: hits_mono pats_distinct)

text \<open>
  Claim C5. Evaluation is monotone in the tree. Whatever file is added, wherever the
  walk meets it, every check keeps each hit it had (the old hit list of every group is
  a subsequence of the new one) and a check that passed still passes. Adding a file can
  turn the OR-combined idempotency check from failed to passed: it fails on the empty
  tree and passes once a \<open>.sql\<close> file with the uniqueness constraint is there.
\<close>

theorem evaluation_monotone:
  "list_all2 (\<lambda>(c, r) (c', r'). c = c' \<and> grows r r')
     (run_checks root (xs @ ys)) (run_checks root (xs @ f # ys))
   \<and> \<not> ok (check_idempotency ''/srv/app'' [])
   \<and> ok (check_idempotency ''/srv/app'' [unique_sql])"
proof -
  have "\<not> ok (check_idempotency ''/srv/app'' [])" by code_simp
  moreover have "ok (check_idempotency ''/srv/app'' [unique_sql])" by code_simp
  ultimately show ?thesis
    by (simp add: run_checks_def grows_checks)
qed

theorem evaluation_monotone_witness:
  "ok (check_idempotency ''/srv/app'' [unique_sql])
   \<and> ok (check_idempotency ''/srv/app'' [unique_sql, text_file [''src''] ''cache.ts'' ''REDIS_URL''])
   \<and> list_all2 (\<lambda>(k, h) (k', h'). k = k' \<and> subseq h h')
        (hits (check_idempotency ''/srv/app'' [unique_sql]))
        (hits (check_idempotency ''/srv/app''
            [unique_sql, text_file [''src''] ''cache.ts'' ''REDIS_URL'']))"
proof -
  have a: "ok (check_idempotency ''/srv/app'' [unique_sql])" by code_simp
  from evaluation_monotone [of "''/srv/app''" "[unique_sql]" "[]"
      "text_file [''src''] ''cache.ts'' ''REDIS_URL''"]
  have "grows (check_idempotency ''/srv/app'' [unique_sql])
      (check_idempotency ''/srv/app'' [unique_sql, text_file [''src''] ''cache.ts'' ''REDIS_URL''])"
    by (simp add: run_checks_def)
  then show ?thesis
    using a by (simp add: grows_def)
qed

section \<open>Two scenarios\<close>

lemma glob_lit: "CHR ''*'' \<notin> set lit \<Longrightarrow> glob_match lit s = (s = lit)"
  by (induction lit s rule: glob_match.induct) auto

lemma glob_star_iff:
  "CHR ''*'' \<notin> set lit \<Longrightarrow> glob_match (CHR ''*'' # lit) s = suffix lit s"
proof (induction s)
  case Nil
  then show ?case by (auto simp: glob_lit)
next
  case (Cons c s)
  then show ?case by (auto simp: glob_lit suffix_Cons)
qed

lemma rglob_suffix:
  "set (rglob ''*.ts'' fs) = {p \<in> set fs. suffix ''.ts'' (e_name p)}"
  "set (rglob ''*.js'' fs) = {p \<in> set fs. suffix ''.js'' (e_name p)}"
  "set (rglob ''*.sql'' fs) = {p \<in> set fs. suffix ''.sql'' (e_name p)}"
  "set (rglob ''*.yml'' fs) = {p \<in> set fs. suffix ''.yml'' (e_name p)}"
  "set (rglob ''*.yaml'' fs) = {p \<in> set fs. suffix ''.yaml'' (e_name p)}"
  by (simp_all add: rglob_def glob_star_iff)

lemma searched_iff:
  "p \<in> set (searched fs) =
     (p \<in> set fs \<and>
      (suffix ''.ts'' (e_name p) \<or> suffix ''.js'' (e_name p) \<or> suffix ''.sql'' (e_name p) \<or>
       suffix ''.yml'' (e_name p) \<or> suffix ''.yaml'' (e_name p)))"
  by (auto simp: searched_def glob_files_def search_globs_def rglob_suffix)

lemma search_at_append:
  "(\<And>p'. rx_match fl r (p', s, []) \<noteq> []) \<Longrightarrow> search_at fl r p (pre @ s)"
proof (induction pre arbitrary: p)
  case Nil
  then show ?case by (cases s) auto
next
  case (Cons c pre)
  then show ?case by simp
qed

lemma db_unique_matches_here:
  "rx_match search_flags
     (cat [str ''UNIQUE'', rstar space, str ''('', rstar space, str ''merchant_id'', rstar space,
           str '','', rstar space, str ''event_id'', rstar space, str '')''])
     (p, unique_text @ post, []) \<noteq> []"
  by (simp add: unique_text_def search_flags_def rstar_def space_def in_cset_def is_space_def)

lemma db_unique_hit:
  "grp_hit (group_regs idempotency_pats ''db_unique'') (pre @ unique_text @ post)"
proof -
  have "re_search search_flags
     (cat [str ''UNIQUE'', rstar space, str ''('', rstar space, str ''merchant_id'', rstar space,
           str '','', rstar space, str ''event_id'', rstar space, str '')''])
     (pre @ unique_text @ post)"
    unfolding re_search_def by (rule search_at_append) (rule db_unique_matches_here)
  then show ?thesis
    by (simp add: group_regs_def idempotency_pats_def grp_hit_def del: str.simps cat.simps)
qed

text \<open>
  Claim C7. Whenever the tree holds a readable file that \<open>search_patterns\<close> reads (its
  name ends in \<open>.ts\<close>, \<open>.js\<close>, \<open>.sql\<close>, \<open>.yml\<close> or \<open>.yaml\<close>) and whose text contains
  \<open>UNIQUE (merchant_id, event_id)\<close>, the idempotency check passes and lists that file
  under \<open>db_unique\<close>, whether or not any hashing evidence exists.
\<close>
theorem idempotency_by_db_unique:
  assumes "p \<in> set fs" and "e_is_file p"
    and "e_text p = Some (pre @ unique_text @ post)"
    and "suffix ''.ts'' (e_name p) \<or> suffix ''.js'' (e_name p) \<or> suffix ''.sql'' (e_name p) \<or>
         suffix ''.yml'' (e_name p) \<or> suffix ''.yaml'' (e_name p)"
  shows "ok (check_idempotency root fs)
    \<and> path_str root p \<in> set (hits_at (hits (check_idempotency root fs)) ''db_unique'')"
proof -
  from assms have s: "p \<in> set (searched fs)"
    by (simp add: searched_iff)
  from assms have "read_text_safe p = pre @ unique_text @ post"
    by (simp add: read_text_safe_def)
  then have "grp_hit (group_regs idempotency_pats ''db_unique'') (read_text_safe p)"
    by (simp add: db_unique_hit)
  with s have "path_str root p \<in> set (evidence root fs (group_regs idempotency_pats ''db_unique''))"
    by (simp add: evidence_def)
  moreover have "hits_at (search_patterns root fs idempotency_pats) k =
        evidence root fs (group_regs idempotency_pats k)" for k
    by (rule hits_at_search_patterns) (rule pats_distinct)
  ultimately show ?thesis
    by (auto simp: check_idempotency_def Let_def)
qed

theorem idempotency_by_db_unique_witness:
  "ok (check_idempotency ''/srv/app'' schema_tree)
   \<and> hits (check_idempotency ''/srv/app'' schema_tree) =
       [(''hash_merchant_and_body'', []), (''db_unique'', [''/srv/app/db/schema.sql''])]"
proof -
  have h: "hits (check_idempotency ''/srv/app'' schema_tree) =
       [(''hash_merchant_and_body'', []), (''db_unique'', [''/srv/app/db/schema.sql''])]"
    by code_simp
  let ?p = "text_file [''db''] ''schema.sql'' (''CREATE TABLE t (id int, '' @ unique_text @ '')'')"
  have 1: "?p \<in> set schema_tree" by (simp add: schema_tree_def)
  have 2: "e_is_file ?p" by (simp add: text_file_def)
  have 3: "e_text ?p = Some (''CREATE TABLE t (id int, '' @ unique_text @ '')'')"
    by (simp add: text_file_def)
  have "suffix ''.sql'' ''schema.sql''" by (simp add: suffix_def)
  then have 4: "suffix ''.ts'' (e_name ?p) \<or> suffix ''.js'' (e_name ?p) \<or>
      suffix ''.sql'' (e_name ?p) \<or> suffix ''.yml'' (e_name ?p) \<or> suffix ''.yaml'' (e_name ?p)"
    by (simp add: text_file_def)
  from idempotency_by_db_unique [OF 1 2 3 4, of "''/srv/app''"] h show ?thesis by simp
qed

lemma port_text_groups:
  "finditer_group1 no_flags rx_env_default port_text = [''8080'']"
  "finditer_group1 no_flags rx_listen port_text = [''3000'']"
  by code_simp+

lemma set_sorted_set: "set (sorted_set xs) = set xs"
  by (simp add: sorted_set_def)

text \<open>
  Claim C8. Whenever the tree holds a readable \<open>.ts\<close> or \<open>.js\<close> file whose text is
  \<open>const port = process.env.PORT || 8080; app.listen(3000)\<close>, the code ports of the
  ports summary contain \<open>8080\<close>, captured by the environment-default pattern, and
  \<open>3000\<close>, captured by the listen-call pattern.
\<close>
theorem code_ports_of_scenario:
  assumes "p \<in> set fs" and "e_is_file p" and "e_text p = Some port_text"
    and "suffix ''.ts'' (e_name p) \<or> suffix ''.js'' (e_name p)"
  shows "''8080'' \<in> set (ps_code (summarize_ports fs))
    \<and> ''3000'' \<in> set (ps_code (summarize_ports fs))
    \<and> finditer_group1 no_flags rx_env_default (read_text_safe p) = [''8080'']
    \<and> finditer_group1 no_flags rx_listen (read_text_safe p) = [''3000'']"
proof -
  from assms have t: "read_text_safe p = port_text"
    by (simp add: read_text_safe_def)
  from assms have "p \<in> set (glob_files fs [''*.ts'', ''*.js''])"
    by (auto simp: glob_files_def rglob_suffix)
  then have "set (finditer_group1 no_flags rx_env_default (read_text_safe p) @
                  finditer_group1 no_flags rx_listen (read_text_safe p))
             \<subseteq> set (ps_code (summarize_ports fs))"
    by (auto simp: summarize_ports_def set_sorted_set)
  then show ?thesis
    by (simp add: t port_text_groups)
qed

theorem code_ports_of_scenario_witness:
  "ps_code (summarize_ports server_tree) = [''3000'', ''8080'']
   \<and> ''8080'' \<in> set (ps_code (summarize_ports server_tree))
   \<and> ''3000'' \<in> set (ps_code (summarize_ports server_tree))"
proof -
  have "ps_code (summarize_ports server_tree) = [''3000'', ''8080'']"
    by code_simp
  moreover have "''8080'' \<in> set (ps_code (summarize_ports server_tree))
    \<and> ''3000'' \<in> set (ps_code (summarize_ports server_tree))"
  proof -
    let ?p = "text_file [''src''] ''server.ts'' port_text"
    have 1: "?p \<in> set server_tree" by (simp add: server_tree_def)
    have 2: "e_is_file ?p" by (simp add: text_file_def)
    have 3: "e_text ?p = Some port_text" by (simp add: text_file_def)
    have "suffix ''.ts'' ''server.ts''" by (simp add: suffix_def)
    then have 4: "suffix ''.ts'' (e_name ?p) \<or> suffix ''.js'' (e_name ?p)"
      by (simp add: text_file_def)
    from code_ports_of_scenario [OF 1 2 3 4] show ?thesis by simp
  qed
  ultimately show ?thesis by simp
qed

section \<open>Flags pattern by pattern\<close>

lemma recased_state_iff:
  "recased_state (p, s, cs) (p', s', cs') =
     (rel_option same_letter p p' \<and> recased s s' \<and> list_all2 recased cs cs')"
  by (simp add: recased_state_def)

lemma same_letter_newline: "same_letter c d \<Longrightarrow> (d = newline) = (c = newline)"
  using swapcase_newline [of c] by (auto simp: same_letter_def)

lemma in_cset_same_letter:
  "same_letter c d \<Longrightarrow>
   (in_cset its d \<or> in_cset its (swapcase d)) = (in_cset its c \<or> in_cset its (swapcase c))"
  using swapcase_swapcase [of c] by (auto simp: same_letter_def)

lemma atom_ok_same_letter:
  assumes "icase fl" and "same_letter c d"
  shows "atom_ok fl a d = atom_ok fl a c"
proof (cases a)
  case (Lit x)
  with assms swapcase_swapcase [of c] show ?thesis by (auto simp: same_letter_def)
next
  case Dot
  with same_letter_newline [OF assms(2)] show ?thesis by simp
next
  case (CSet its)
  with assms(1) in_cset_same_letter [OF assms(2), of its] show ?thesis by simp
next
  case (NSet its)
  with assms(1) in_cset_same_letter [OF assms(2), of its] show ?thesis by simp
qed

lemma reps_recased:
  assumes "icase fl" and "list_all2 recased cs cs'"
  shows "list_all2 same_letter s s' \<Longrightarrow> rel_option same_letter p p' \<Longrightarrow>
         list_all2 recased_state (reps fl a hi p s cs) (reps fl a hi p' s' cs')"
proof (induction s s' arbitrary: hi p p' rule: list_all2_induct)
  case Nil
  with assms(2) show ?case by (simp add: recased_state_iff recased_def)
next
  case (Cons c s d s')
  have "list_all2 recased_state (reps fl a hi' (Some c) s cs) (reps fl a hi' (Some d) s' cs')" for hi'
    using Cons.IH [of "Some c" "Some d" hi'] Cons.hyps by simp
  with Cons.hyps Cons.prems assms(2) show ?case
    by (simp add: recased_state_iff recased_def atom_ok_same_letter [OF assms(1)])
qed

lemma concat_recased:
  "list_all2 (list_all2 R) xss yss \<Longrightarrow> list_all2 R (concat xss) (concat yss)"
  by (induction xss yss rule: list_all2_induct) (auto intro: list_all2_appendI)

lemma rx_match_recased:
  assumes "icase fl"
  shows "recased_state st st' \<Longrightarrow> list_all2 recased_state (rx_match fl r st) (rx_match fl r st')"
proof (induction r arbitrary: st st')
  case Eps
  then show ?case by simp
next
  case (Atom a)
  obtain p s cs p' s' cs' where st: "st = (p, s, cs)" "st' = (p', s', cs')"
    by (cases st, cases st') auto
  with Atom show ?case
    by (cases s; cases s')
       (auto simp: recased_state_iff recased_def atom_ok_same_letter [OF assms])
next
  case Bol
  obtain p s cs p' s' cs' where st: "st = (p, s, cs)" "st' = (p', s', cs')"
    by (cases st, cases st') auto
  with Bol have "rel_option same_letter p p'" by (simp add: recased_state_iff)
  then have "(p' = None) = (p = None)" "(p' = Some newline) = (p = Some newline)"
    by (cases p; cases p'; simp add: same_letter_newline)+
  with Bol st show ?case by simp
next
  case (Rep g lo hi a)
  obtain p s cs p' s' cs' where st: "st = (p, s, cs)" "st' = (p', s', cs')"
    by (cases st, cases st') auto
  with Rep have "list_all2 recased_state (reps fl a hi p s cs) (reps fl a hi p' s' cs')"
    by (intro reps_recased [OF assms]) (simp_all add: recased_state_iff recased_def)
  then show ?case
    by (simp add: st Let_def list_all2_dropI)
next
  case (Seq a b)
  have "list_all2 recased_state (rx_match fl a st) (rx_match fl a st')"
    by (rule Seq.IH(1)) (rule Seq.prems)
  then have "list_all2 (list_all2 recased_state)
               (map (rx_match fl b) (rx_match fl a st)) (map (rx_match fl b) (rx_match fl a st'))"
    by (simp add: list_all2_map1 list_all2_map2)
       (erule list_all2_mono, rule Seq.IH(2))
  then show ?case
    by (simp add: concat_recased)
next
  case (Alt a b)
  from Alt.IH(1) [OF Alt.prems] Alt.IH(2) [OF Alt.prems] show ?case
    by (simp add: list_all2_appendI)
next
  case (Grp r)
  obtain p s cs p' s' cs' where st: "st = (p, s, cs)" "st' = (p', s', cs')"
    by (cases st, cases st') auto
  with Grp.prems have ss: "list_all2 same_letter s s'"
    by (simp add: recased_state_iff recased_def)
  have len: "length s' = length s"
    using ss by (simp add: list_all2_lengthD)
  have "list_all2 recased_state (rx_match fl r st) (rx_match fl r st')"
    by (rule Grp.IH) (rule Grp.prems)
  then have "list_all2 recased_state
      (map (\<lambda>(q, t, ds). (q, t, ds @ [take (length s - length t) s])) (rx_match fl r st))
      (map (\<lambda>(q, t, ds). (q, t, ds @ [take (length s' - length t) s'])) (rx_match fl r st'))"
    unfolding list_all2_map1 list_all2_map2
  proof (rule list_all2_mono)
    fix x y assume xy: "recased_state x y"
    obtain q t ds q' t' ds' where x: "x = (q, t, ds)" and y: "y = (q', t', ds')"
      by (cases x, cases y) auto
    from xy have r: "rel_option same_letter q q'" and tt: "list_all2 same_letter t t'"
      and dd: "list_all2 recased ds ds'"
      by (simp_all add: x y recased_state_iff recased_def)
    have lt: "length t' = length t"
      using tt by (simp add: list_all2_lengthD)
    have "list_all2 same_letter (take (length s - length t) s) (take (length s' - length t') s')"
      using ss by (simp add: len lt list_all2_takeI)
    then have "recased (take (length s - length t) s) (take (length s' - length t') s')"
      by (simp add: recased_def)
    with dd have "list_all2 recased (ds @ [take (length s - length t) s])
                    (ds' @ [take (length s' - length t') s'])"
      by (simp add: list_all2_appendI)
    with r tt
    show "recased_state (case x of (q, t, ds) \<Rightarrow> (q, t, ds @ [take (length s - length t) s]))
                 (case y of (q, t, ds) \<Rightarrow> (q, t, ds @ [take (length s' - length t) s']))"
      by (simp add: x y recased_state_iff recased_def)
  qed
  then show ?case by (simp add: st)
qed

lemma search_at_recased:
  assumes "icase fl"
  shows "recased s s' \<Longrightarrow> rel_option same_letter p p' \<Longrightarrow>
         search_at fl r p' s' = search_at fl r p s"
  unfolding recased_def
proof (induction s s' arbitrary: p p' rule: list_all2_induct)
  case Nil
  then have "recased_state (p, [], []) (p', [], [])"
    by (simp add: recased_state_iff recased_def)
  from rx_match_recased [OF assms this, of r] show ?case
    by (auto dest: list_all2_lengthD)
next
  case (Cons c s d s')
  then have "recased_state (p, c # s, []) (p', d # s', [])"
    by (simp add: recased_state_iff recased_def)
  from rx_match_recased [OF assms this, of r]
  have "(rx_match fl r (p', d # s', []) = []) = (rx_match fl r (p, c # s, []) = [])"
    by (auto dest: list_all2_lengthD)
  moreover have "search_at fl r (Some d) s' = search_at fl r (Some c) s"
    using Cons.IH [of "Some c" "Some d"] Cons.hyps by simp
  ultimately show ?case by simp
qed

lemma grp_hit_recased: "recased t t' \<Longrightarrow> grp_hit regs t' = grp_hit regs t"
  using search_at_recased [of search_flags t t' None None]
  by (simp add: grp_hit_def re_search_def search_flags_def)

lemma read_recased: "recased_entry e e' \<Longrightarrow> recased (read_text_safe e) (read_text_safe e')"
  by (cases "e_text e"; cases "e_text e'")
     (auto simp: recased_entry_def read_text_safe_def recased_def)

lemma path_str_recased: "recased_entry e e' \<Longrightarrow> path_str root e' = path_str root e"
  by (simp add: recased_entry_def path_str_def)

lemma adds_recased: "recased t t' \<Longrightarrow> adds path t' ps k = adds path t ps k"
  by (simp add: adds_def grp_hit_recased)

lemma scan_file_recased:
  assumes "recased_entry e e'"
  shows "scan_file root pats e' = scan_file root pats e"
proof
  fix hs
  show "scan_file root pats e' hs = scan_file root pats e hs"
    by (simp add: scan_file_def fold_scan_regs path_str_recased [OF assms]
        adds_recased [OF read_recased [OF assms]])
qed

lemma rglob_recased:
  "list_all2 recased_entry fs fs' \<Longrightarrow> list_all2 recased_entry (rglob pat fs) (rglob pat fs')"
  unfolding rglob_def
  by (induction fs fs' rule: list_all2_induct) (auto simp: recased_entry_def)

lemma glob_files_recased:
  assumes "list_all2 recased_entry fs fs'"
  shows "list_all2 recased_entry (glob_files fs pats) (glob_files fs' pats)"
  unfolding glob_files_def
  by (induction pats) (auto intro: list_all2_appendI rglob_recased [OF assms])

lemma fold_scan_recased:
  "list_all2 recased_entry xs ys \<Longrightarrow>
   fold (scan_file root pats) ys hs = fold (scan_file root pats) xs hs"
  by (induction xs ys arbitrary: hs rule: list_all2_induct) (simp_all add: scan_file_recased)

lemma search_patterns_recased:
  assumes "recased_tree fs fs'"
  shows "search_patterns root fs' pats = search_patterns root fs pats"
  unfolding search_patterns_def
  by (rule fold_scan_recased) (rule glob_files_recased [OF assms [unfolded recased_tree_def]])

lemma run_checks_recased:
  "recased_tree fs fs' \<Longrightarrow> run_checks root fs' = run_checks root fs"
  by (simp add: run_checks_def check_defs search_patterns_recased)

lemma seq_match:
  "rx_match fl (Seq a b) st \<noteq> [] \<Longrightarrow> \<exists>st' \<in> set (rx_match fl a st). rx_match fl b st' \<noteq> []"
  by (induction "rx_match fl a st") auto

lemma reps_consumed:
  "(p', s', cs') \<in> set (reps fl a hi p s cs) \<Longrightarrow>
   \<exists>pre. s = pre @ s' \<and> list_all (atom_ok fl a) pre"
proof (induction s arbitrary: hi p)
  case Nil
  then show ?case by simp
next
  case (Cons c s)
  show ?case
  proof (cases "(p', s', cs') = (p, c # s, cs)")
    case True
    then show ?thesis by simp
  next
    case False
    with Cons.prems have ok: "atom_ok fl a c"
      and m: "(p', s', cs') \<in> set (reps fl a (map_option (\<lambda>n. n - 1) hi) (Some c) s cs)"
      by (auto split: if_splits)
    from Cons.IH [OF m] obtain pre where "s = pre @ s'" "list_all (atom_ok fl a) pre"
      by blast
    with ok have "c # s = (c # pre) @ s' \<and> list_all (atom_ok fl a) (c # pre)"
      by simp
    then show ?thesis by blast
  qed
qed

lemma str_consumed:
  "\<not> icase fl \<Longrightarrow> (p', s', cs') \<in> set (rx_match fl (str w) (p, s, cs)) \<Longrightarrow> s = w @ s'"
proof (induction w arbitrary: p s)
  case Nil
  then show ?case by simp
next
  case (Cons x w)
  then show ?case
    by (cases s) (auto split: if_splits)
qed

lemma env_port_anchored:
  "c \<noteq> newline \<Longrightarrow> rx_match (no_flags\<lparr>multiline := True\<rparr>) rx_env_port (Some c, s, cs) = []"
  by (simp add: rx_env_port_def)

lemma env_port_capitals:
  assumes "rx_match (no_flags\<lparr>multiline := True\<rparr>) rx_env_port (p, s, cs) \<noteq> []"
  shows "\<exists>ws t. s = ws @ ''PORT'' @ t \<and> list_all is_space ws"
proof -
  let ?fl = "no_flags\<lparr>multiline := True\<rparr>"
  have ic: "\<not> icase ?fl" by (simp add: no_flags_def)
  define rest where "rest = cat [rstar space, str ''='', rstar space, Grp (rplus digit09)]"
  have rx: "rx_env_port = Seq Bol (Seq (rstar space) (Seq (str ''PORT'') rest))"
    by (simp add: rx_env_port_def rest_def del: str.simps)
  from assms obtain st1 where 1: "st1 \<in> set (rx_match ?fl Bol (p, s, cs))"
    and n1: "rx_match ?fl (Seq (rstar space) (Seq (str ''PORT'') rest)) st1 \<noteq> []"
    unfolding rx by (blast dest: seq_match)
  from 1 have st1: "st1 = (p, s, cs)" by (auto split: if_splits)
  from n1 obtain st2 where 2: "st2 \<in> set (rx_match ?fl (rstar space) st1)"
    and n2: "rx_match ?fl (Seq (str ''PORT'') rest) st2 \<noteq> []"
    by (blast dest: seq_match)
  obtain p2 s2 cs2 where st2: "st2 = (p2, s2, cs2)" by (cases st2)
  from 2 have "(p2, s2, cs2) \<in> set (reps ?fl space None p s cs)"
    by (simp add: st1 st2 rstar_def)
  from reps_consumed [OF this] obtain ws where ws: "s = ws @ s2" "list_all (atom_ok ?fl space) ws"
    by blast
  have "atom_ok ?fl space = is_space"
    by (rule ext) (simp add: space_def in_cset_def no_flags_def)
  with ws have sp: "list_all is_space ws" by simp
  from n2 obtain st3 where 3: "st3 \<in> set (rx_match ?fl (str ''PORT'') st2)"
    by (blast dest: seq_match)
  obtain p3 s3 cs3 where st3: "st3 = (p3, s3, cs3)" by (cases st3)
  from str_consumed [OF ic, of p3 s3 cs3 "''PORT''" p2 s2 cs2] 3
  have "s2 = ''PORT'' @ s3" by (simp add: st2 st3)
  with ws sp show ?thesis by blast
qed

lemma env_port_samples:
  "ps_env (summarize_ports [text_file [] ''.env'' ''x PORT=3000'']) = []"
  "ps_env (summarize_ports [text_file [] ''.env'' ''port=3000'']) = []"
  "ps_env (summarize_ports [text_file [] ''.env'' ''PORT=3000'']) = [''3000'']"
  "ps_dockerfile (summarize_ports [text_file [] ''Dockerfile'' ''expose 3000'']) = []"
  by code_simp+

text \<open>
  Claim C2. The flags are chosen pattern by pattern, not once for the script. The
  start-of-line assignment pattern \<open>^\s*PORT\s*=\s*([0-9]+)\<close> of \<open>summarize_ports\<close> is
  matched with \<open>re.M\<close> alone, without \<open>re.I\<close>: a match starts only at the start of the
  text or right after a newline, never in mid-line, and the text there reads \<open>PORT\<close> in
  capitals after optional white space; so \<open>x PORT=3000\<close> and \<open>port=3000\<close> give no port
  where \<open>PORT=3000\<close> gives one, and the \<open>EXPOSE\<close> pattern, matched with no flag, does not
  find \<open>expose\<close>. The patterns of the thirteen checks are matched case-insensitively:
  changing the case of letters anywhere in the file texts changes no check result.
\<close>

theorem flags_differ_by_pattern:
  "(rx_match (no_flags\<lparr>multiline := True\<rparr>) rx_env_port (Some c, s, cs) \<noteq> [] \<longrightarrow> c = newline)
   \<and> (rx_match (no_flags\<lparr>multiline := True\<rparr>) rx_env_port (p, s, cs) \<noteq> [] \<longrightarrow>
        (\<exists>ws t. s = ws @ ''PORT'' @ t \<and> list_all is_space ws))
   \<and> (recased_tree fs fs' \<longrightarrow> run_checks root fs' = run_checks root fs)
   \<and> ps_env (summarize_ports [text_file [] ''.env'' ''x PORT=3000'']) = []
   \<and> ps_env (summarize_ports [text_file [] ''.env'' ''port=3000'']) = []
   \<and> ps_env (summarize_ports [text_file [] ''.env'' ''PORT=3000'']) = [''3000'']
   \<and> ps_dockerfile (summarize_ports [text_file [] ''Dockerfile'' ''expose 3000'']) = []"
  using env_port_anchored [of c s cs] env_port_capitals [of p s cs] run_checks_recased [of fs fs' root]
  by (auto simp: env_port_samples)

theorem flags_differ_by_pattern_witness:
  "rx_match (no_flags\<lparr>multiline := True\<rparr>) rx_env_port (Some newline, ''PORT=3000'', []) \<noteq> []
   \<and> recased_tree midline_tree mixed_case_tree
   \<and> hits (check_redis_required ''/srv/app'' mixed_case_tree) =
       [(''env_required'', [''/srv/app/src/cfg.ts'']), (''fail_on_end'', []), (''rediss_tls'', [])]
   \<and> hits (check_redis_required ''/srv/app'' midline_tree) =
       [(''env_required'', [''/srv/app/src/cfg.ts'']), (''fail_on_end'', []), (''rediss_tls'', [])]"
proof -
  have m: "rx_match (no_flags\<lparr>multiline := True\<rparr>) rx_env_port (Some newline, ''PORT=3000'', []) \<noteq> []"
    by code_simp
  have t: "recased_tree midline_tree mixed_case_tree"
    by code_simp
  have h: "hits (check_redis_required ''/srv/app'' midline_tree) =
       [(''env_required'', [''/srv/app/src/cfg.ts'']), (''fail_on_end'', []), (''rediss_tls'', [])]"
    by code_simp
  note th = flags_differ_by_pattern [of newline "''PORT=3000''" "[]" "Some newline"
      midline_tree mixed_case_tree "''/srv/app''"]
  have "run_checks ''/srv/app'' mixed_case_tree = run_checks ''/srv/app'' midline_tree"
    by (rule th [THEN conjunct2, THEN conjunct2, THEN conjunct1, rule_format]) (rule t)
  then have "check_redis_required ''/srv/app'' mixed_case_tree =
             check_redis_required ''/srv/app'' midline_tree"
    by (simp add: run_checks_def)
  with m t h show ?thesis by simp
qed

end
